theory Spec2Isabelle
  imports Main "HOL-Library.Sublist"
begin

section \<open>Data model (types.ts)\<close>

text \<open>
  The interfaces of \<^verbatim>\<open>types.ts\<close> as records. JavaScript numbers that hold identifiers
  and counts are integers; \<^verbatim>\<open>string | null\<close> and optional fields are options.
  Field names carry the record's prefix, since two interfaces share \<^verbatim>\<open>html_url\<close>,
  \<^verbatim>\<open>repository_url\<close> and \<^verbatim>\<open>id\<close>. A pull request also carries \<^verbatim>\<open>api_url\<close>, which
  \<^verbatim>\<open>fetchUserPullRequests\<close> stores on the object although the interface does not list it.
\<close>

record GitHubRepo =
  repo_id :: int
  repo_name :: string
  repo_full_name :: string
  repo_private :: bool
  repo_html_url :: string
  repo_url :: string
  repo_description :: "string option"
  repo_language :: "string option"
  repo_updated_at :: string

record GitHubPR =
  pr_id :: int
  pr_number :: int
  pr_title :: string
  pr_html_url :: string
  pr_api_url :: string
  pr_state :: string
  pr_created_at :: string
  pr_merged_at :: "string option"
  pr_body :: "string option"
  pr_repository_url :: string
  additions :: "int option"
  deletions :: "int option"

record GitHubCommit =
  commit_sha :: string
  commit_message :: string
  commit_html_url :: string
  commit_date :: string
  commit_repository_url :: string

section \<open>Repository reconciliation (App.tsx, handleFetchStats)\<close>

text \<open>\<^verbatim>\<open>String.prototype.startsWith\<close>: \<open>startsWith s p\<close> is \<^verbatim>\<open>s.startsWith(p)\<close>.\<close>

fun startsWith :: "string \<Rightarrow> string \<Rightarrow> bool" where
  "startsWith s [] = True"
| "startsWith [] (p # ps) = False"
| "startsWith (c # s) (p # ps) = (c = p \<and> startsWith s ps)"

text \<open>
  Lines 96-100: the set of API URLs of the repositories whose id is selected.
\<close>

definition selectedRepoUrls :: "GitHubRepo list \<Rightarrow> int set \<Rightarrow> string set" where
  "selectedRepoUrls repositories selectedRepoIds =
     set (map repo_url (filter (\<lambda>r. repo_id r \<in> selectedRepoIds) repositories))"

text \<open>Line 102: a pull request is kept when its \<^verbatim>\<open>repository_url\<close> is in that set.\<close>

definition filteredPrs :: "GitHubRepo list \<Rightarrow> int set \<Rightarrow> GitHubPR list \<Rightarrow> GitHubPR list" where
  "filteredPrs repositories selectedRepoIds allPrs =
     filter (\<lambda>pr. pr_repository_url pr \<in> selectedRepoUrls repositories selectedRepoIds) allPrs"

text \<open>
  Lines 103-109: a commit is kept when some repository is selected and the commit's own
  \<^verbatim>\<open>html_url\<close> starts with that repository's \<^verbatim>\<open>html_url\<close>.
\<close>

definition filteredCommits ::
  "GitHubRepo list \<Rightarrow> int set \<Rightarrow> GitHubCommit list \<Rightarrow> GitHubCommit list" where
  "filteredCommits repositories selectedRepoIds allCommits =
     filter (\<lambda>c. list_ex (\<lambda>r. repo_id r \<in> selectedRepoIds
                              \<and> startsWith (commit_html_url c) (repo_html_url r)) repositories)
       allCommits"

text \<open>Both filters together, as step 2 of \<^verbatim>\<open>handleFetchStats\<close> computes them.\<close>

definition reconcile ::
  "GitHubRepo list \<Rightarrow> int set \<Rightarrow> GitHubPR list \<Rightarrow> GitHubCommit list
     \<Rightarrow> GitHubPR list \<times> GitHubCommit list" where
  "reconcile repositories selectedRepoIds allPrs allCommits =
     (filteredPrs repositories selectedRepoIds allPrs,
      filteredCommits repositories selectedRepoIds allCommits)"

text \<open>Concrete repositories and commits for the examples of the specification.\<close>

definition mkRepo :: "int \<Rightarrow> string \<Rightarrow> string \<Rightarrow> GitHubRepo" where
  "mkRepo i api html =
     \<lparr>repo_id = i, repo_name = ''repo'', repo_full_name = ''org/repo'', repo_private = False,
      repo_html_url = html, repo_url = api, repo_description = None, repo_language = None,
      repo_updated_at = ''2024-01-01T00:00:00Z''\<rparr>"

definition mkCommit :: "string \<Rightarrow> string \<Rightarrow> GitHubCommit" where
  "mkCommit html repo =
     \<lparr>commit_sha = ''abc'', commit_message = ''fix'', commit_html_url = html,
      commit_date = ''2024-01-15T10:00:00Z'', commit_repository_url = repo\<rparr>"

definition mkPR :: "int \<Rightarrow> string \<Rightarrow> string \<Rightarrow> GitHubPR" where
  "mkPR i api repo =
     \<lparr>pr_id = i, pr_number = i, pr_title = ''change'', pr_html_url = ''https://host/org/repo/pull/1'',
      pr_api_url = api, pr_state = ''closed'', pr_created_at = ''2024-01-15T10:00:00Z'',
      pr_merged_at = None, pr_body = None, pr_repository_url = repo,
      additions = None, deletions = None\<rparr>"

section \<open>The GitHub service (services/githubService.ts)\<close>

subsection \<open>Strings the service builds\<close>

text \<open>
  A number inside a template literal is printed in decimal, without sign or padding for
  a natural number.
\<close>

definition digitChar :: "nat \<Rightarrow> char" where
  "digitChar d = ''0123456789'' ! d"

fun toStringNat :: "nat \<Rightarrow> string" where
  "toStringNat n =
     (if n < 10 then [digitChar n] else toStringNat (n div 10) @ [digitChar (n mod 10)])"

declare toStringNat.simps [simp del]

text \<open>
  \<^verbatim>\<open>encodeURIComponent\<close> over a string of UTF-8 bytes: letters, digits and
  \<^verbatim>\<open>- _ . ! ~ * ' ( )\<close> stay, every other byte becomes \<^verbatim>\<open>%XX\<close> in upper-case
  hexadecimal.
\<close>

definition hexChar :: "nat \<Rightarrow> char" where
  "hexChar d = ''0123456789ABCDEF'' ! d"

definition uriUnreserved :: "char \<Rightarrow> bool" where
  "uriUnreserved c \<longleftrightarrow>
     c \<in> set ''ABCDEFGHIJKLMNOPQRSTUVWXYZabcdefghijklmnopqrstuvwxyz0123456789-_.!~*()''
     \<or> c = CHR 0x27"

definition encodeURIComponent :: "string \<Rightarrow> string" where
  "encodeURIComponent s =
     concat (map (\<lambda>c. if uriUnreserved c then [c]
                       else [CHR ''%'', hexChar (of_char c div 16), hexChar (of_char c mod 16)]) s)"

definition GITHUB_API_BASE :: string where
  "GITHUB_API_BASE = ''https://api.github.com''"

subsection \<open>The network\<close>

text \<open>
  \<^verbatim>\<open>fetch(url, { headers })\<close> either rejects with an error (\<open>Inl\<close> its message) or
  resolves to a response: a status, a status text and a body, where reading the body with
  \<^verbatim>\<open>response.json()\<close> may itself reject. \<^verbatim>\<open>response.ok\<close> is a status in 200..299.
  A thrown \<^verbatim>\<open>Error\<close> is its message. The server is a function of the request; every
  function of the service takes the list of requests issued so far and returns it
  extended, so that what was asked of the network, and in which order, is part of the
  result.
\<close>

type_synonym headers = "(string \<times> string) list"

type_synonym request = "string \<times> headers"

record 'b response =
  status :: nat
  statusText :: string
  json :: "string + 'b"

type_synonym 'b fetch = "string \<Rightarrow> headers \<Rightarrow> string + 'b response"

definition ok :: "'b response \<Rightarrow> bool" where
  "ok r \<longleftrightarrow> 200 \<le> status r \<and> status r \<le> 299"

text \<open>\<^verbatim>\<open>handleErrors\<close> (the current service file): \<open>Inl\<close> is the message thrown.\<close>

definition handleErrors :: "'b response \<Rightarrow> string + unit" where
  "handleErrors r =
     (if \<not> ok r then
        (if status r = 403 then Inl ''GitHub API rate limit exceeded. Please try again later.''
         else if status r = 401 then Inl ''Invalid GitHub Token.''
         else if status r = 422 then Inl ''Validation Failed. Try a shorter date range.''
         else Inl (''GitHub API Error: '' @ statusText r))
      else Inr ())"

subsection \<open>fetchSearchPages\<close>

text \<open>
  The body of a search response is read through \<^verbatim>\<open>data.items || []\<close>: the model's
  body is the \<^verbatim>\<open>items\<close> array when the property is there, \<open>None\<close> when it is not.
  The loop is the \<^verbatim>\<open>while (currentPage <= maxPages)\<close> of the source with its three
  variables; each \<^verbatim>\<open>await\<close> that rejects leaves the function with that error.
\<close>

definition pageUrl :: "string \<Rightarrow> nat \<Rightarrow> string" where
  "pageUrl url currentPage = url @ ''&page='' @ toStringNat currentPage"

function fetchSearchPages_loop ::
  "('a list option) fetch \<Rightarrow> string \<Rightarrow> headers \<Rightarrow> nat \<Rightarrow> nat \<Rightarrow> 'a list \<Rightarrow> request list
     \<Rightarrow> (string + 'a list) \<times> request list" where
  "fetchSearchPages_loop fetch url headers maxPages currentPage allItems reqs =
     (if currentPage \<le> maxPages then
        (let reqs' = reqs @ [(pageUrl url currentPage, headers)] in
         case fetch (pageUrl url currentPage) headers of
           Inl e \<Rightarrow> (Inl e, reqs')
         | Inr response \<Rightarrow>
             (case handleErrors response of
                Inl e \<Rightarrow> (Inl e, reqs')
              | Inr _ \<Rightarrow>
                  (case json response of
                     Inl e \<Rightarrow> (Inl e, reqs')
                   | Inr data \<Rightarrow>
                       (let items = (case data of None \<Rightarrow> [] | Some xs \<Rightarrow> xs) in
                        if length items = 0 then (Inr allItems, reqs')
                        else if length items < 100 then (Inr (allItems @ items), reqs')
                        else fetchSearchPages_loop fetch url headers maxPages (currentPage + 1)
                               (allItems @ items) reqs'))))
      else (Inr allItems, reqs))"
  by pat_completeness auto
termination
  by (relation "measure (\<lambda>(fetch, url, headers, maxPages, currentPage, allItems, reqs).
                  Suc maxPages - currentPage)") auto

declare fetchSearchPages_loop.simps [simp del]

definition fetchSearchPages ::
  "('a list option) fetch \<Rightarrow> string \<Rightarrow> headers \<Rightarrow> nat \<Rightarrow> request list
     \<Rightarrow> (string + 'a list) \<times> request list" where
  "fetchSearchPages fetch url headers maxPages reqs =
     fetchSearchPages_loop fetch url headers maxPages 1 [] reqs"

subsection \<open>What the search endpoints return\<close>

text \<open>
  The items of an issue search and of a commit search, with the properties the service
  reads. \<^verbatim>\<open>item.pull_request?.merged_at\<close> has an object that may be missing and a
  property that may be null; \<^verbatim>\<open>item.repository?.html_url\<close> likewise. The service
  reads \<^verbatim>\<open>item.commit.message\<close> and \<^verbatim>\<open>item.commit.author.date\<close> without a guard,
  so the model has them present. The detail endpoint returns \<^verbatim>\<open>additions\<close> and
  \<^verbatim>\<open>deletions\<close>, each possibly missing.
\<close>

record raw_issue =
  item_id :: int
  item_number :: int
  item_title :: string
  item_html_url :: string
  item_url :: string
  item_state :: string
  item_created_at :: string
  item_pull_request :: "string option option"
  item_body :: "string option"
  item_repository_url :: string

record pull_details =
  details_additions :: "int option"
  details_deletions :: "int option"

record raw_commit =
  item_sha :: string
  item_commit_message :: string
  item_commit_html_url :: string
  item_commit_author_date :: string
  item_repository :: "string option option"

text \<open>\<^verbatim>\<open>a || b\<close> on strings: the empty string is falsy.\<close>

definition orElse :: "string \<Rightarrow> string \<Rightarrow> string" where
  "orElse a b = (if a = [] then b else a)"

text \<open>The headers object: \<^verbatim>\<open>Accept\<close>, and \<^verbatim>\<open>Authorization\<close> when the token is not empty.\<close>

definition requestHeaders :: "string \<Rightarrow> string \<Rightarrow> headers" where
  "requestHeaders accept token =
     (''Accept'', accept) # (if token \<noteq> [] then [(''Authorization'', ''token '' @ token)] else [])"

subsection \<open>fetchUserPullRequests\<close>

text \<open>Lines 117-128: the basic pull request of a search item.\<close>

definition basicPR :: "raw_issue \<Rightarrow> GitHubPR" where
  "basicPR item =
     \<lparr>pr_id = item_id item,
      pr_number = item_number item,
      pr_title = item_title item,
      pr_html_url = item_html_url item,
      pr_api_url = item_url item,
      pr_state = item_state item,
      pr_created_at = item_created_at item,
      pr_merged_at = (case item_pull_request item of
                        Some (Some m) \<Rightarrow> (if m = [] then None else Some m)
                      | _ \<Rightarrow> None),
      pr_body = item_body item,
      pr_repository_url = item_repository_url item,
      additions = None,
      deletions = None\<rparr>"

text \<open>
  Lines 135-150: the callback of \<^verbatim>\<open>prsToEnrich.map\<close>. Its \<^verbatim>\<open>try\<close> catches a rejected
  \<^verbatim>\<open>fetch\<close> and a rejected \<^verbatim>\<open>json()\<close>; a response that is not \<^verbatim>\<open>ok\<close> returns the
  pull request as it is.
\<close>

definition enrichPR :: "pull_details fetch \<Rightarrow> headers \<Rightarrow> GitHubPR \<Rightarrow> GitHubPR" where
  "enrichPR fetch headers pr =
     (case fetch (pr_api_url pr) headers of
        Inl e \<Rightarrow> pr
      | Inr detailsRes \<Rightarrow>
          if ok detailsRes then
            (case json detailsRes of
               Inl e \<Rightarrow> pr
             | Inr details \<Rightarrow>
                 pr\<lparr>additions := details_additions details,
                    deletions := details_deletions details\<rparr>)
          else pr)"

text \<open>
  Lines 130-152: the first 20 are enriched, the rest appended as they are.
  \<^verbatim>\<open>Promise.all\<close> keeps the order of the promises it is given, and each callback
  issues its request when \<^verbatim>\<open>map\<close> calls it, so the requests are issued in list order.
\<close>

definition enrichPRs :: "pull_details fetch \<Rightarrow> headers \<Rightarrow> GitHubPR list \<Rightarrow> GitHubPR list" where
  "enrichPRs fetch headers basicPRs =
     (let prsToEnrich = take 20 basicPRs;
          restPRs = drop 20 basicPRs;
          enrichedPRs = map (enrichPR fetch headers) prsToEnrich
      in enrichedPRs @ restPRs)"

definition enrichRequests :: "headers \<Rightarrow> GitHubPR list \<Rightarrow> request list" where
  "enrichRequests headers basicPRs = map (\<lambda>pr. (pr_api_url pr, headers)) (take 20 basicPRs)"

text \<open>Lines 105-111: the search URL, from the query and its encoding.\<close>

definition pullRequestsUrl :: "string \<Rightarrow> string \<Rightarrow> string \<Rightarrow> string" where
  "pullRequestsUrl username startDate endDate =
     (let query = ''author:'' @ username @ '' type:pr created:'' @ startDate @ ''..'' @ endDate;
          encodedQuery = encodeURIComponent query
      in GITHUB_API_BASE @ ''/search/issues?q='' @ encodedQuery
           @ ''&per_page=100&sort=created&order=desc'')"

text \<open>
  The whole function. \<open>fetch\<close> and \<open>fetchDetails\<close> are the global \<^verbatim>\<open>fetch\<close> at the
  two body types it is read at. The check of \<^verbatim>\<open>username\<close> stands before the \<^verbatim>\<open>try\<close>;
  the \<^verbatim>\<open>catch\<close> rethrows with \<^verbatim>\<open>error.message || 'Failed to fetch pull requests'\<close>.
\<close>

definition fetchUserPullRequests ::
  "(raw_issue list option) fetch \<Rightarrow> pull_details fetch
     \<Rightarrow> string \<Rightarrow> string \<Rightarrow> string \<Rightarrow> string \<Rightarrow> request list
     \<Rightarrow> (string + GitHubPR list) \<times> request list" where
  "fetchUserPullRequests fetch fetchDetails username token startDate endDate reqs =
     (if username = [] then (Inl ''Username is required'', reqs)
      else
        (let headers = requestHeaders ''application/vnd.github.v3+json'' token;
             url = pullRequestsUrl username startDate endDate
         in case fetchSearchPages fetch url headers 10 reqs of
              (Inl e, reqs') \<Rightarrow> (Inl (orElse e ''Failed to fetch pull requests''), reqs')
            | (Inr items, reqs') \<Rightarrow>
                (let basicPRs = map basicPR items
                 in (Inr (enrichPRs fetchDetails headers basicPRs),
                     reqs' @ enrichRequests headers basicPRs))))"

subsection \<open>fetchUserCommits\<close>

text \<open>Lines 188-194: the commit of a search item.\<close>

definition commitOfItem :: "raw_commit \<Rightarrow> GitHubCommit" where
  "commitOfItem item =
     \<lparr>commit_sha = item_sha item,
      commit_message = item_commit_message item,
      commit_html_url = item_commit_html_url item,
      commit_date = item_commit_author_date item,
      commit_repository_url =
        (case item_repository item of
           Some (Some u) \<Rightarrow> orElse u ''Unknown Repo''
         | _ \<Rightarrow> ''Unknown Repo'')\<rparr>"

definition commitsUrl :: "string \<Rightarrow> string \<Rightarrow> string \<Rightarrow> string" where
  "commitsUrl username startDate endDate =
     (let query = ''author:'' @ username @ '' committer-date:'' @ startDate @ ''..'' @ endDate;
          encodedQuery = encodeURIComponent query
      in GITHUB_API_BASE @ ''/search/commits?q='' @ encodedQuery
           @ ''&per_page=100&sort=committer-date&order=desc'')"

definition fetchUserCommits ::
  "(raw_commit list option) fetch
     \<Rightarrow> string \<Rightarrow> string \<Rightarrow> string \<Rightarrow> string \<Rightarrow> request list
     \<Rightarrow> (string + GitHubCommit list) \<times> request list" where
  "fetchUserCommits fetch username token startDate endDate reqs =
     (if username = [] then (Inl ''Username is required'', reqs)
      else
        (let headers = requestHeaders ''application/vnd.github.cloak-preview+json'' token;
             url = commitsUrl username startDate endDate
         in case fetchSearchPages fetch url headers 10 reqs of
              (Inl e, reqs') \<Rightarrow> (Inl (orElse e ''Failed to fetch commits''), reqs')
            | (Inr items, reqs') \<Rightarrow> (Inr (map commitOfItem items), reqs')))"

subsection \<open>Notions the properties are stated with\<close>

text \<open>
  What the specification calls the pages up to and including the first empty or short
  page (fewer than 100 items), for a list of pages in request order.
\<close>

fun pagesUpToShort :: "'a list list \<Rightarrow> 'a list list" where
  "pagesUpToShort [] = []"
| "pagesUpToShort (p # ps) = (if length p < 100 then [p] else p # pagesUpToShort ps)"

text \<open>
  The page a successful request for page \<open>p\<close> serves: the items array of an \<^verbatim>\<open>ok\<close>
  response whose body can be read (a body without \<^verbatim>\<open>items\<close> counts as an empty page).
\<close>

definition servedPage :: "('a list option) fetch \<Rightarrow> string \<Rightarrow> headers \<Rightarrow> nat \<Rightarrow> 'a list option" where
  "servedPage fetch url headers p =
     (case fetch (pageUrl url p) headers of
        Inl e \<Rightarrow> None
      | Inr r \<Rightarrow> if ok r then (case json r of Inl e \<Rightarrow> None
                                   | Inr None \<Rightarrow> Some []
                                   | Inr (Some xs) \<Rightarrow> Some xs)
                else None)"

text \<open>The size-impact pair a successful detail request for a pull request returns.\<close>

definition fetchedDetails :: "pull_details fetch \<Rightarrow> headers \<Rightarrow> GitHubPR \<Rightarrow> pull_details option" where
  "fetchedDetails fetch headers pr =
     (case fetch (pr_api_url pr) headers of
        Inl e \<Rightarrow> None
      | Inr r \<Rightarrow> if ok r then (case json r of Inl e \<Rightarrow> None | Inr d \<Rightarrow> Some d) else None)"

subsection \<open>A provider with three full pages and a page of 40\<close>

definition okResponse :: "'b \<Rightarrow> 'b response" where
  "okResponse b = \<lparr>status = 200, statusText = ''OK'', json = Inr b\<rparr>"

definition exampleSearchUrl :: string where
  "exampleSearchUrl = ''https://api.github.com/search/issues?q=author%3Aoctocat&per_page=100''"

definition examplePages :: "nat \<Rightarrow> nat list" where
  "examplePages p = (if p = 4 then replicate 40 0 else replicate 100 0)"

definition fourPages :: "(nat list option) fetch" where
  "fourPages url headers =
     Inr (okResponse (Some (if url = exampleSearchUrl @ ''&page=4''
                            then replicate 40 0 else replicate 100 0)))"

subsection \<open>A provider with 25 pull requests whose detail request fails for item 5\<close>

definition exampleItem :: "nat \<Rightarrow> raw_issue" where
  "exampleItem i =
     \<lparr>item_id = int i, item_number = int i, item_title = ''change'',
      item_html_url = ''https://github.com/org/repo/pull/'' @ toStringNat i,
      item_url = ''https://api.github.com/repos/org/repo/pulls/'' @ toStringNat i,
      item_state = ''closed'', item_created_at = ''2024-01-15T10:00:00Z'',
      item_pull_request = Some None, item_body = None,
      item_repository_url = ''https://api.github.com/repos/org/repo''\<rparr>"

definition onePageOf25 :: "(raw_issue list option) fetch" where
  "onePageOf25 url headers = Inr (okResponse (Some (map exampleItem [0..<25])))"

definition detailsFailFor5 :: "pull_details fetch" where
  "detailsFailFor5 url headers =
     (if url = ''https://api.github.com/repos/org/repo/pulls/5'' then Inl ''Failed to fetch''
      else Inr (okResponse \<lparr>details_additions = Some 10, details_deletions = Some 2\<rparr>))"

subsection \<open>A commit search item with or without its repository object\<close>

definition exampleCommitItem :: "string option option \<Rightarrow> raw_commit" where
  "exampleCommitItem repository =
     \<lparr>item_sha = ''abc'', item_commit_message = ''fix the parser'',
      item_commit_html_url = ''https://host/org/repo/commit/abc'',
      item_commit_author_date = ''2024-01-15T10:00:00Z'',
      item_repository = repository\<rparr>"

definition oneCommitPage :: "(raw_commit list option) fetch" where
  "oneCommitPage url headers =
     Inr (okResponse (Some [exampleCommitItem None, exampleCommitItem (Some None)]))"

section \<open>The activity chart (components/ActivityChart.tsx)\<close>

subsection \<open>Dates\<close>

text \<open>
  A \<^verbatim>\<open>Date\<close> holds a time value, the milliseconds since the epoch in UTC. The functions
  below are the ones the ECMAScript specification defines the \<^verbatim>\<open>Date\<close> methods with,
  on integers: \<open>Day\<close>, \<open>TimeWithinDay\<close>, \<open>DaysInYear\<close>, \<open>DayFromYear\<close>, \<open>YearFromTime\<close>,
  \<open>MonthFromTime\<close>, \<open>DateFromTime\<close>, \<open>MakeDay\<close> and \<open>MakeDate\<close>. \<open>YearFromTime\<close> is specified
  as the largest year whose first day is not after the time; \<open>YearFromDay\<close> computes it
  from the mean year length of 146097/400 days, which is at most one year off, and
  corrects (lemma \<open>YearFromDay_iff\<close>). Months count from 0. The limit of the time value to
  100,000,000 days around the epoch is not modelled.
\<close>

definition msPerDay :: int where
  "msPerDay = 86400000"

definition Day :: "int \<Rightarrow> int" where
  "Day t = t div msPerDay"

definition TimeWithinDay :: "int \<Rightarrow> int" where
  "TimeWithinDay t = t mod msPerDay"

definition DaysInYear :: "int \<Rightarrow> int" where
  "DaysInYear y =
     (if y mod 4 \<noteq> 0 then 365 else if y mod 100 \<noteq> 0 then 366
      else if y mod 400 \<noteq> 0 then 365 else 366)"

definition DayFromYear :: "int \<Rightarrow> int" where
  "DayFromYear y =
     365 * (y - 1970) + (y - 1969) div 4 - (y - 1901) div 100 + (y - 1601) div 400"

definition YearFromDay :: "int \<Rightarrow> int" where
  "YearFromDay d =
     (let y = 1970 + (400 * d) div 146097
      in if d < DayFromYear y then y - 1
         else if d < DayFromYear (y + 1) then y
         else y + 1)"

definition YearFromTime :: "int \<Rightarrow> int" where
  "YearFromTime t = YearFromDay (Day t)"

definition InLeapYear :: "int \<Rightarrow> int" where
  "InLeapYear t = (if DaysInYear (YearFromTime t) = 366 then 1 else 0)"

definition DayWithinYear :: "int \<Rightarrow> int" where
  "DayWithinYear t = Day t - DayFromYear (YearFromTime t)"

text \<open>
  The day within the year on which month \<open>m\<close> starts, for \<open>m\<close> in 0..11, with the leap
  day added from March on; the table of the specification's \<open>MonthFromTime\<close>.
\<close>

definition monthStart :: "int \<Rightarrow> int \<Rightarrow> int" where
  "monthStart m leap =
     (if m = 0 then 0 else if m = 1 then 31
      else [59, 90, 120, 151, 181, 212, 243, 273, 304, 334] ! nat (m - 2) + leap)"

definition MonthFromTime :: "int \<Rightarrow> int" where
  "MonthFromTime t =
     (let d = DayWithinYear t; leap = InLeapYear t
      in if d < 31 then 0
         else if d < 59 + leap then 1
         else if d < 90 + leap then 2
         else if d < 120 + leap then 3
         else if d < 151 + leap then 4
         else if d < 181 + leap then 5
         else if d < 212 + leap then 6
         else if d < 243 + leap then 7
         else if d < 273 + leap then 8
         else if d < 304 + leap then 9
         else if d < 334 + leap then 10
         else 11)"

definition DateFromTime :: "int \<Rightarrow> int" where
  "DateFromTime t = DayWithinYear t - monthStart (MonthFromTime t) (InLeapYear t) + 1"

text \<open>
  \<open>MakeDay\<close>: the day number of the first of month \<open>month mod 12\<close> of year
  \<open>year + month div 12\<close>, plus \<open>date - 1\<close>.
\<close>

definition MakeDay :: "int \<Rightarrow> int \<Rightarrow> int \<Rightarrow> int" where
  "MakeDay year month date =
     (let ym = year + month div 12;
          mn = month mod 12
      in DayFromYear ym + monthStart mn (if DaysInYear ym = 366 then 1 else 0) + date - 1)"

definition MakeDate :: "int \<Rightarrow> int \<Rightarrow> int" where
  "MakeDate day time = day * msPerDay + time"

text \<open>
  What the chart takes from its host. \<open>LocalTZA h t isUTC\<close> is the offset of local time
  from UTC in milliseconds, as the specification has it: at the UTC time \<open>t\<close> when
  \<open>isUTC\<close> holds, at the local time \<open>t\<close> otherwise; it changes with \<open>t\<close> where the
  host's zone has daylight-saving time. \<open>Date_parse\<close> is \<^verbatim>\<open>new Date(string)\<close> as the
  time value it yields (\<open>None\<close> for an invalid date), and \<open>toLocaleDateString\<close> the
  locale's rendering of a label, by time value and by whether the month-and-year options
  or the month-and-day options are passed.
\<close>

record host =
  LocalTZA :: "int \<Rightarrow> bool \<Rightarrow> int"
  Date_parse :: "string \<Rightarrow> int option"
  toLocaleDateString :: "int \<Rightarrow> bool \<Rightarrow> string"

definition LocalTime :: "host \<Rightarrow> int \<Rightarrow> int" where
  "LocalTime h t = t + LocalTZA h t True"

definition UTC :: "host \<Rightarrow> int \<Rightarrow> int" where
  "UTC h t = t - LocalTZA h t False"

definition getFullYear :: "host \<Rightarrow> int \<Rightarrow> int" where
  "getFullYear h t = YearFromTime (LocalTime h t)"

definition getMonth :: "host \<Rightarrow> int \<Rightarrow> int" where
  "getMonth h t = MonthFromTime (LocalTime h t)"

definition getDate :: "host \<Rightarrow> int \<Rightarrow> int" where
  "getDate h t = DateFromTime (LocalTime h t)"

definition setDate :: "host \<Rightarrow> int \<Rightarrow> int \<Rightarrow> int" where
  "setDate h t dt =
     (let t' = LocalTime h t;
          newDate = MakeDate (MakeDay (YearFromTime t') (MonthFromTime t') dt) (TimeWithinDay t')
      in UTC h newDate)"

definition setMonth :: "host \<Rightarrow> int \<Rightarrow> int \<Rightarrow> int" where
  "setMonth h t m =
     (let t' = LocalTime h t;
          newDate = MakeDate (MakeDay (YearFromTime t') m (DateFromTime t')) (TimeWithinDay t')
      in UTC h newDate)"

subsection \<open>Keys\<close>

definition toStringInt :: "int \<Rightarrow> string" where
  "toStringInt i = (if i < 0 then CHR ''-'' # toStringNat (nat (- i)) else toStringNat (nat i))"

definition padStart :: "nat \<Rightarrow> char \<Rightarrow> string \<Rightarrow> string" where
  "padStart n c s = replicate (n - length s) c @ s"

text \<open>
  \<^verbatim>\<open>toISOString\<close>: the UTC fields; a year outside 0..9999 is written with a sign and
  six digits.
\<close>

definition isoYear :: "int \<Rightarrow> string" where
  "isoYear y =
     (if 0 \<le> y \<and> y \<le> 9999 then padStart 4 CHR ''0'' (toStringNat (nat y))
      else (if y < 0 then CHR ''-'' else CHR ''+'') # padStart 6 CHR ''0'' (toStringNat (nat \<bar>y\<bar>)))"

definition pad2 :: "int \<Rightarrow> string" where
  "pad2 n = padStart 2 CHR ''0'' (toStringNat (nat n))"

definition toISOString :: "int \<Rightarrow> string" where
  "toISOString t =
     isoYear (YearFromTime t) @ ''-'' @ pad2 (MonthFromTime t + 1) @ ''-'' @ pad2 (DateFromTime t)
       @ ''T'' @ pad2 (TimeWithinDay t div 3600000) @ '':'' @ pad2 (TimeWithinDay t div 60000 mod 60)
       @ '':'' @ pad2 (TimeWithinDay t div 1000 mod 60)
       @ ''.'' @ padStart 3 CHR ''0'' (toStringNat (nat (TimeWithinDay t mod 1000))) @ ''Z''"

text \<open>\<^verbatim>\<open>s.split('T')[0]\<close>: the part of \<open>s\<close> before its first \<^verbatim>\<open>T\<close>.\<close>

definition splitT0 :: "string \<Rightarrow> string" where
  "splitT0 s = takeWhile (\<lambda>c. c \<noteq> CHR ''T'') s"

text \<open>Lines 57 and 95, and lines 62 and 97: the key of a time value.\<close>

definition monthKey :: "host \<Rightarrow> int \<Rightarrow> string" where
  "monthKey h t = toStringInt (getFullYear h t) @ ''-'' @ pad2 (getMonth h t + 1)"

definition dayKey :: "int \<Rightarrow> string" where
  "dayKey t = splitT0 (toISOString t)"

subsection \<open>The buckets\<close>

record ChartData =
  key :: string
  label :: string
  PRs :: nat
  Commits :: nat
  timestamp :: int

datatype series = SeriesPRs | SeriesCommits

text \<open>
  A \<^verbatim>\<open>Map\<close> keeps its entries in insertion order; \<^verbatim>\<open>set\<close> on a key that is there
  replaces the value where it stands.
\<close>

type_synonym dataMap = "(string \<times> ChartData) list"

definition mapSet :: "string \<Rightarrow> ChartData \<Rightarrow> dataMap \<Rightarrow> dataMap" where
  "mapSet k v m =
     (if k \<in> fst ` set m then map (\<lambda>(k', v'). if k' = k then (k', v) else (k', v')) m
      else m @ [(k, v)])"

definition mapGet :: "dataMap \<Rightarrow> string \<Rightarrow> ChartData option" where
  "mapGet m k = map_of m k"

text \<open>Lines 26-30. \<^verbatim>\<open>Math.ceil\<close> of a quotient of integers.\<close>

definition diffDays :: "int \<Rightarrow> int \<Rightarrow> int" where
  "diffDays start end' =
     (let diffTime = \<bar>end' - start\<bar>
      in - ((- diffTime) div (1000 * 60 * 60 * 24)))"

text \<open>
  Lines 48-81: the loop, with its variables \<^verbatim>\<open>current\<close>, \<^verbatim>\<open>loops\<close> and \<^verbatim>\<open>dataMap\<close>.
  \<^verbatim>\<open>loops++ > 1000\<close> compares the value before the increment.
\<close>

function timelineLoop ::
  "host \<Rightarrow> bool \<Rightarrow> int \<Rightarrow> int \<Rightarrow> nat \<Rightarrow> dataMap \<Rightarrow> dataMap" where
  "timelineLoop h isMonthly endTarget current loops dataMap =
     (if current \<le> endTarget
         \<or> (isMonthly \<and> getMonth h current = getMonth h endTarget
              \<and> getFullYear h current = getFullYear h endTarget)
      then
        (if loops > 1000 then dataMap
         else
           (let k = (if isMonthly then monthKey h current else dayKey current);
                l = toLocaleDateString h current isMonthly;
                dataMap' = mapSet k \<lparr>key = k, label = l, PRs = 0, Commits = 0,
                                      timestamp = current\<rparr> dataMap;
                current' = (if isMonthly then setMonth h current (getMonth h current + 1)
                            else setDate h current (getDate h current + 1))
            in timelineLoop h isMonthly endTarget current' (loops + 1) dataMap'))
      else dataMap)"
  by pat_completeness auto
termination
  by (relation "measure (\<lambda>(h, isMonthly, endTarget, current, loops, dataMap). 1001 - loops)") auto

declare timelineLoop.simps [simp del]

text \<open>
  Lines 84-104: \<^verbatim>\<open>processItem\<close>. An invalid date is skipped; a key without a bucket
  changes nothing; otherwise the bucket's count of the given series goes up by one.
\<close>

definition bump :: "series \<Rightarrow> ChartData \<Rightarrow> ChartData" where
  "bump type bucket =
     (case type of SeriesPRs \<Rightarrow> bucket\<lparr>PRs := PRs bucket + 1\<rparr>
                 | SeriesCommits \<Rightarrow> bucket\<lparr>Commits := Commits bucket + 1\<rparr>)"

definition processItem :: "host \<Rightarrow> bool \<Rightarrow> string \<Rightarrow> series \<Rightarrow> dataMap \<Rightarrow> dataMap" where
  "processItem h isMonthly dateStr type dataMap =
     (case Date_parse h dateStr of
        None \<Rightarrow> dataMap
      | Some date \<Rightarrow>
          (let k = (if isMonthly then monthKey h date else dayKey date)
           in case mapGet dataMap k of
                None \<Rightarrow> dataMap
              | Some bucket \<Rightarrow>
                  map (\<lambda>(k', v'). if k' = k then (k', bump type v') else (k', v')) dataMap))"

text \<open>
  Lines 21-110: \<^verbatim>\<open>chartData\<close>. With an invalid start or end every comparison of the
  loop condition is false and \<^verbatim>\<open>isMonthly\<close> is false, so the map stays empty. The sort
  with the comparator \<^verbatim>\<open>a.timestamp - b.timestamp\<close> is stable.
\<close>

definition isMonthly :: "host \<Rightarrow> string \<Rightarrow> string \<Rightarrow> bool" where
  "isMonthly h startDate endDate =
     (case (Date_parse h startDate, Date_parse h endDate) of
        (Some start, Some end') \<Rightarrow> diffDays start end' > 60
      | _ \<Rightarrow> False)"

definition chartData ::
  "host \<Rightarrow> GitHubPR list \<Rightarrow> GitHubCommit list \<Rightarrow> string \<Rightarrow> string \<Rightarrow> ChartData list" where
  "chartData h prs commits startDate endDate =
     (case (Date_parse h startDate, Date_parse h endDate) of
        (Some start, Some end') \<Rightarrow>
          (let monthly = isMonthly h startDate endDate;
               current = (if monthly then setDate h start 1 else start);
               endTarget = (if monthly then setDate h end' 1 else end');
               dataMap0 = timelineLoop h monthly endTarget current 0 [];
               dataMap1 = fold (\<lambda>pr. processItem h monthly (pr_created_at pr) SeriesPRs) prs dataMap0;
               dataMap2 = fold (\<lambda>c. processItem h monthly (commit_date c) SeriesCommits) commits dataMap1
           in sort_key timestamp (map snd dataMap2))
      | _ \<Rightarrow> [])"

subsection \<open>Notions the properties of the chart are stated with\<close>

text \<open>
  The key the loop and \<^verbatim>\<open>processItem\<close> give a time value, the bucket the loop creates
  for it, and the loop's condition.
\<close>

definition bucketKey :: "host \<Rightarrow> bool \<Rightarrow> int \<Rightarrow> string" where
  "bucketKey h monthly t = (if monthly then monthKey h t else dayKey t)"

definition emptyBucket :: "host \<Rightarrow> bool \<Rightarrow> int \<Rightarrow> ChartData" where
  "emptyBucket h monthly t =
     \<lparr>key = bucketKey h monthly t, label = toLocaleDateString h t monthly,
      PRs = 0, Commits = 0, timestamp = t\<rparr>"

definition loopCond :: "host \<Rightarrow> bool \<Rightarrow> int \<Rightarrow> int \<Rightarrow> bool" where
  "loopCond h monthly endTarget current \<longleftrightarrow>
     current \<le> endTarget
     \<or> (monthly \<and> getMonth h current = getMonth h endTarget
          \<and> getFullYear h current = getFullYear h endTarget)"

definition nextCurrent :: "host \<Rightarrow> bool \<Rightarrow> int \<Rightarrow> int" where
  "nextCurrent h monthly current =
     (if monthly then setMonth h current (getMonth h current + 1)
      else setDate h current (getDate h current + 1))"

text \<open>A host whose zone has no daylight-saving time: its offset is the same at all times.\<close>

definition constantOffset :: "host \<Rightarrow> int \<Rightarrow> bool" where
  "constantOffset h tza \<longleftrightarrow> (\<forall>t isUTC. LocalTZA h t isUTC = tza)"

text \<open>
  Months counted from year 0: the month a time value falls in by the host's local time,
  the month it falls in by UTC, the time value of the first day of a month at a given
  local time of day, and the key \<^verbatim>\<open>YYYY-MM\<close> of a month.
\<close>

definition monthKeyOfIndex :: "int \<Rightarrow> string" where
  "monthKeyOfIndex i = toStringInt (i div 12) @ ''-'' @ pad2 (i mod 12 + 1)"

definition monthIndex :: "host \<Rightarrow> int \<Rightarrow> int" where
  "monthIndex h t = 12 * getFullYear h t + getMonth h t"

definition calendarMonth :: "int \<Rightarrow> int" where
  "calendarMonth t = 12 * YearFromTime t + MonthFromTime t"

definition monthTime :: "host \<Rightarrow> int \<Rightarrow> int \<Rightarrow> int" where
  "monthTime h i tod = UTC h (MakeDate (MakeDay 0 i 1) tod)"

text \<open>
  The number of calendar days, and of calendar months, that the range from the date with
  day number \<open>dS\<close> to the date with day number \<open>dE\<close> spans, both ends included; and the
  day number of the local date at the UTC midnight that begins day \<open>d\<close>, on a host with
  the constant offset \<open>tza\<close> (the same day when the host is at or ahead of UTC by less than
  a day, the day before when it is behind by at most a day).
\<close>

definition localDay :: "int \<Rightarrow> int \<Rightarrow> int" where
  "localDay tza d = d + tza div msPerDay"

definition daysSpanned :: "int \<Rightarrow> int \<Rightarrow> nat" where
  "daysSpanned dS dE = nat (dE - dS + 1)"

definition monthsSpanned :: "int \<Rightarrow> int \<Rightarrow> nat" where
  "monthsSpanned dS dE = nat (calendarMonth (dE * msPerDay) - calendarMonth (dS * msPerDay) + 1)"

text \<open>The number of days of the month \<open>m\<close>, counted from 0, of the year \<open>y\<close>.\<close>

definition daysInMonth :: "int \<Rightarrow> int \<Rightarrow> int" where
  "daysInMonth y m =
     (let l = (if DaysInYear y = 366 then 1 else 0)
      in if m = 11 then 31 else monthStart (m + 1) l - monthStart m l)"

text \<open>The map before sorting, for a start and an end that are dates.\<close>

definition filledMap ::
  "host \<Rightarrow> GitHubPR list \<Rightarrow> GitHubCommit list \<Rightarrow> bool \<Rightarrow> int \<Rightarrow> int \<Rightarrow> dataMap" where
  "filledMap h prs commits monthly start end' =
     fold (\<lambda>c. processItem h monthly (commit_date c) SeriesCommits) commits
       (fold (\<lambda>pr. processItem h monthly (pr_created_at pr) SeriesPRs) prs
          (timelineLoop h monthly
             (if monthly then setDate h end' 1 else end')
             (if monthly then setDate h start 1 else start) 0 []))"

subsection \<open>Hosts and ranges for the examples\<close>

text \<open>
  Hosts whose \<^verbatim>\<open>new Date\<close> reads the date-only strings of the examples as UTC
  midnight and the time stamps of GitHub as UTC, as the language specifies for these
  formats; their labels are left empty. \<open>hostAt\<close> has a constant offset from UTC.
  \<open>hostSpringForward\<close> is five hours behind UTC until 2024-03-10 07:00 UTC, when its
  clocks go from 02:00 to 03:00, and four hours behind from then on; a local time in the
  hour that is skipped is read with the offset before the change.
\<close>

definition exampleParse :: "string \<Rightarrow> int option" where
  "exampleParse s =
     (if s = ''1900-01-01'' then Some (MakeDay 1900 0 1 * msPerDay)
      else if s = ''2000-01-01'' then Some (MakeDay 2000 0 1 * msPerDay)
      else if s = ''2024-01-01'' then Some (MakeDay 2024 0 1 * msPerDay)
      else if s = ''2024-03-01'' then Some (MakeDay 2024 2 1 * msPerDay)
      else if s = ''2024-03-02'' then Some (MakeDay 2024 2 2 * msPerDay)
      else if s = ''2024-03-09'' then Some (MakeDay 2024 2 9 * msPerDay)
      else if s = ''2024-03-11'' then Some (MakeDay 2024 2 11 * msPerDay)
      else if s = ''2024-04-02'' then Some (MakeDay 2024 3 2 * msPerDay)
      else if s = ''2024-01-15T10:00:00Z'' then Some (MakeDay 2024 0 15 * msPerDay + 36000000)
      else None)"

definition hostAt :: "int \<Rightarrow> host" where
  "hostAt tza =
     \<lparr>LocalTZA = (\<lambda>t isUTC. tza), Date_parse = exampleParse,
      toLocaleDateString = (\<lambda>t m. [])\<rparr>"


section \<open>Properties of the reconciliation\<close>

lemma startsWith_prefix: "startsWith s p = prefix p s"
  by (induction s p rule: startsWith.induct) auto

lemma selectedRepoUrls_iff:
  "u \<in> selectedRepoUrls repositories selectedRepoIds
     \<longleftrightarrow> (\<exists>r \<in> set repositories. repo_id r \<in> selectedRepoIds \<and> repo_url r = u)"
  by (auto simp: selectedRepoUrls_def)

text \<open>
  C5. A pull request is retained exactly when its owning-repository machine URL equals
  the machine URL of some selected repository of the catalog: the output is the input
  filtered by that test (order and repetitions kept). The test is equality of URLs, not
  a prefix: a pull request of \<^verbatim>\<open>.../repos/org/repo2\<close> is dropped when only
  \<^verbatim>\<open>.../repos/org/repo\<close> is selected, and one of \<^verbatim>\<open>.../repos/org/repo\<close> is kept.
\<close>

theorem C5_pr_retained_iff_member:
  "filteredPrs repositories selectedRepoIds allPrs
     = filter (\<lambda>pr. \<exists>r \<in> set repositories.
                       repo_id r \<in> selectedRepoIds \<and> repo_url r = pr_repository_url pr) allPrs
   \<and> (pr \<in> set (filteredPrs repositories selectedRepoIds allPrs)
        \<longleftrightarrow> pr \<in> set allPrs
            \<and> pr_repository_url pr
                \<in> {repo_url r | r. r \<in> set repositories \<and> repo_id r \<in> selectedRepoIds})
   \<and> filteredPrs [mkRepo 1 ''https://api.host/repos/org/repo'' ''https://host/org/repo''] {1}
        [mkPR 7 ''https://api.host/repos/org/repo2/pulls/7'' ''https://api.host/repos/org/repo2'',
         mkPR 8 ''https://api.host/repos/org/repo/pulls/8'' ''https://api.host/repos/org/repo'']
      = [mkPR 8 ''https://api.host/repos/org/repo/pulls/8'' ''https://api.host/repos/org/repo'']"
proof -
  have eq: "(\<lambda>pr. pr_repository_url pr \<in> selectedRepoUrls repositories selectedRepoIds)
          = (\<lambda>pr. \<exists>r \<in> set repositories.
                      repo_id r \<in> selectedRepoIds \<and> repo_url r = pr_repository_url pr)"
    by (rule ext) (simp add: selectedRepoUrls_iff)
  have general: "filteredPrs repositories selectedRepoIds allPrs
     = filter (\<lambda>pr. \<exists>r \<in> set repositories.
                       repo_id r \<in> selectedRepoIds \<and> repo_url r = pr_repository_url pr) allPrs"
    unfolding filteredPrs_def eq by simp
  have "selectedRepoUrls repositories selectedRepoIds
          = {repo_url r | r. r \<in> set repositories \<and> repo_id r \<in> selectedRepoIds}"
    by (auto simp: selectedRepoUrls_def)
  then have member: "pr \<in> set (filteredPrs repositories selectedRepoIds allPrs)
        \<longleftrightarrow> pr \<in> set allPrs
            \<and> pr_repository_url pr
                \<in> {repo_url r | r. r \<in> set repositories \<and> repo_id r \<in> selectedRepoIds}"
    unfolding filteredPrs_def by simp
  have example:
    "filteredPrs [mkRepo 1 ''https://api.host/repos/org/repo'' ''https://host/org/repo''] {1}
        [mkPR 7 ''https://api.host/repos/org/repo2/pulls/7'' ''https://api.host/repos/org/repo2'',
         mkPR 8 ''https://api.host/repos/org/repo/pulls/8'' ''https://api.host/repos/org/repo'']
      = [mkPR 8 ''https://api.host/repos/org/repo/pulls/8'' ''https://api.host/repos/org/repo'']"
    by (simp add: filteredPrs_def selectedRepoUrls_def mkRepo_def mkPR_def)
  from general member example show ?thesis by blast
qed

text \<open>
  C1, as the code has it. A commit is retained exactly when the human URL of some
  selected repository is a prefix of the commit's own human URL (order and repetitions
  kept). The commit \<^verbatim>\<open>https://host/org/repo/commit/abc\<close> is retained when
  \<^verbatim>\<open>https://host/org/repo\<close> is selected; a commit under \<^verbatim>\<open>https://host/org/other\<close>,
  whose URL does not extend the selected one, is dropped.
\<close>

theorem C1_commit_retained_iff_prefix:
  "filteredCommits repositories selectedRepoIds allCommits
     = filter (\<lambda>c. \<exists>r \<in> set repositories. repo_id r \<in> selectedRepoIds
                      \<and> prefix (repo_html_url r) (commit_html_url c)) allCommits
   \<and> (c \<in> set (filteredCommits repositories selectedRepoIds allCommits)
        \<longleftrightarrow> c \<in> set allCommits
            \<and> (\<exists>r \<in> set repositories. repo_id r \<in> selectedRepoIds
                  \<and> prefix (repo_html_url r) (commit_html_url c)))
   \<and> filteredCommits [mkRepo 1 ''https://api.host/repos/org/repo'' ''https://host/org/repo''] {1}
        [mkCommit ''https://host/org/other/commit/abc'' ''https://host/org/other'',
         mkCommit ''https://host/org/repo/commit/abc'' ''https://host/org/repo'']
      = [mkCommit ''https://host/org/repo/commit/abc'' ''https://host/org/repo'']"
proof -
  have general: "filteredCommits repositories selectedRepoIds allCommits
     = filter (\<lambda>c. \<exists>r \<in> set repositories. repo_id r \<in> selectedRepoIds
                      \<and> prefix (repo_html_url r) (commit_html_url c)) allCommits"
    by (simp add: filteredCommits_def list_ex_iff startsWith_prefix)
  have member: "c \<in> set (filteredCommits repositories selectedRepoIds allCommits)
        \<longleftrightarrow> c \<in> set allCommits
            \<and> (\<exists>r \<in> set repositories. repo_id r \<in> selectedRepoIds
                  \<and> prefix (repo_html_url r) (commit_html_url c))"
    unfolding general by simp
  have example:
    "filteredCommits [mkRepo 1 ''https://api.host/repos/org/repo'' ''https://host/org/repo''] {1}
        [mkCommit ''https://host/org/other/commit/abc'' ''https://host/org/other'',
         mkCommit ''https://host/org/repo/commit/abc'' ''https://host/org/repo'']
      = [mkCommit ''https://host/org/repo/commit/abc'' ''https://host/org/repo'']"
    by (simp add: filteredCommits_def mkRepo_def mkCommit_def)
  from general member example show ?thesis by blast
qed

text \<open>
  The example of C1 that the code does not satisfy: with only \<^verbatim>\<open>https://host/org/repo\<close>
  selected, a commit under \<^verbatim>\<open>https://host/org/repo2\<close> is retained, because the selected
  URL is a string prefix of the commit's URL.
\<close>

theorem C1_repo2_commit_is_retained:
  "filteredCommits [mkRepo 1 ''https://api.host/repos/org/repo'' ''https://host/org/repo''] {1}
        [mkCommit ''https://host/org/repo2/commit/abc'' ''https://host/org/repo2'']
      = [mkCommit ''https://host/org/repo2/commit/abc'' ''https://host/org/repo2'']"
  by (simp add: filteredCommits_def mkRepo_def mkCommit_def)

text \<open>
  C8. Reconciliation is idempotent: reconciling the output again, with the same catalog
  and the same selection, returns that output.
\<close>

theorem C8_reconcile_idempotent:
  "reconcile repositories selectedRepoIds
      (fst (reconcile repositories selectedRepoIds allPrs allCommits))
      (snd (reconcile repositories selectedRepoIds allPrs allCommits))
     = reconcile repositories selectedRepoIds allPrs allCommits"
  by (simp add: reconcile_def filteredPrs_def filteredCommits_def)

section \<open>Properties of the pager\<close>

lemma handleErrors_ok: "ok r \<Longrightarrow> handleErrors r = Inr ()"
  by (simp add: handleErrors_def)

lemma servedPage_SomeD:
  assumes "servedPage fetch url headers p = Some xs"
  obtains r d where "fetch (pageUrl url p) headers = Inr r" "ok r" "json r = Inr d"
    "(case d of None \<Rightarrow> [] | Some ys \<Rightarrow> ys) = xs"
  using assms unfolding servedPage_def
  by (auto split: sum.splits if_splits option.splits)

lemma upt_single: "[i..<Suc i] = [i]"
  by simp

lemma upt_first: "[i..<Suc (i + n)] = i # [Suc i..<Suc (i + n)]"
  by (simp add: upt_conv_Cons)

lemma fetchSearchPages_loop_served:
  assumes "\<forall>p. currentPage \<le> p \<and> p \<le> maxPages \<longrightarrow> servedPage fetch url headers p = Some (pages p)"
  shows "fetchSearchPages_loop fetch url headers maxPages currentPage allItems reqs =
     (Inr (allItems @ concat (pagesUpToShort (map pages [currentPage..<Suc maxPages]))),
      reqs @ map (\<lambda>p. (pageUrl url p, headers))
               [currentPage..<currentPage + length (pagesUpToShort (map pages [currentPage..<Suc maxPages]))])"
  using assms
proof (induction fetch url headers maxPages currentPage allItems reqs rule: fetchSearchPages_loop.induct)
  case (1 fetch url headers maxPages currentPage allItems reqs)
  show ?case
  proof (cases "currentPage \<le> maxPages")
    case False
    then show ?thesis
      by (simp add: fetchSearchPages_loop.simps [of fetch url headers maxPages currentPage])
  next
    case True
    with "1.prems" have "servedPage fetch url headers currentPage = Some (pages currentPage)"
      by simp
    then obtain r d where r: "fetch (pageUrl url currentPage) headers = Inr r" "ok r" "json r = Inr d"
      "(case d of None \<Rightarrow> [] | Some ys \<Rightarrow> ys) = pages currentPage"
      by (rule servedPage_SomeD)
    have upt: "[currentPage..<Suc maxPages] = currentPage # [Suc currentPage..<Suc maxPages]"
      using True by (simp add: upt_conv_Cons)
    show ?thesis
    proof (cases "length (pages currentPage) < 100")
      case True
      then show ?thesis
        using \<open>currentPage \<le> maxPages\<close> r
        by (simp add: fetchSearchPages_loop.simps [of fetch url headers maxPages currentPage]
              handleErrors_ok upt upt_single Let_def del: upt_Suc)
    next
      case False
      have "fetchSearchPages_loop fetch url headers maxPages (currentPage + 1)
               (allItems @ pages currentPage) (reqs @ [(pageUrl url currentPage, headers)])
         = (Inr ((allItems @ pages currentPage) @ concat (pagesUpToShort (map pages [currentPage + 1..<Suc maxPages]))),
            (reqs @ [(pageUrl url currentPage, headers)]) @ map (\<lambda>p. (pageUrl url p, headers))
               [currentPage + 1..<currentPage + 1 + length (pagesUpToShort (map pages [currentPage + 1..<Suc maxPages]))])"
        using False \<open>currentPage \<le> maxPages\<close> r "1.prems"
        by (intro "1.IH"[OF \<open>currentPage \<le> maxPages\<close> refl r(1) _ r(3)]) (auto simp: handleErrors_ok)
      moreover have "pages currentPage \<noteq> []"
        using False by auto
      ultimately show ?thesis
        using False \<open>currentPage \<le> maxPages\<close> r
        by (simp add: fetchSearchPages_loop.simps [of fetch url headers maxPages currentPage]
              handleErrors_ok upt upt_first Let_def del: upt_Suc)
    qed
  qed
qed

lemma digitChar_inj: "a < 10 \<Longrightarrow> b < 10 \<Longrightarrow> digitChar a = digitChar b \<Longrightarrow> a = b"
proof -
  assume a: "a < 10" and b: "b < 10" and eq: "digitChar a = digitChar b"
  have d: "distinct ''0123456789''" by simp
  have "length ''0123456789'' = 10" by simp
  with a b eq d show "a = b"
    unfolding digitChar_def by (metis nth_eq_iff_index_eq)
qed

lemma toStringNat_nonempty: "toStringNat n \<noteq> []"
  by (subst toStringNat.simps) simp

lemma toStringNat_inj: "toStringNat n = toStringNat m \<Longrightarrow> n = m"
proof (induction n arbitrary: m rule: toStringNat.induct)
  case (1 n)
  show ?case
  proof (cases "n < 10")
    case True
    then have n: "toStringNat n = [digitChar n]"
      by (subst toStringNat.simps) simp
    show ?thesis
    proof (cases "m < 10")
      case True
      then have "toStringNat m = [digitChar m]"
        by (subst toStringNat.simps) simp
      with n "1.prems" \<open>n < 10\<close> True show ?thesis
        by (simp add: digitChar_inj)
    next
      case False
      then have "toStringNat m = toStringNat (m div 10) @ [digitChar (m mod 10)]"
        by (subst toStringNat.simps) simp
      with n "1.prems" toStringNat_nonempty [of "m div 10"] show ?thesis
        by auto
    qed
  next
    case False
    then have n: "toStringNat n = toStringNat (n div 10) @ [digitChar (n mod 10)]"
      by (subst toStringNat.simps) simp
    show ?thesis
    proof (cases "m < 10")
      case True
      then have "toStringNat m = [digitChar m]"
        by (subst toStringNat.simps) simp
      with n "1.prems" toStringNat_nonempty [of "n div 10"] show ?thesis
        by auto
    next
      case mbig: False
      then have "toStringNat m = toStringNat (m div 10) @ [digitChar (m mod 10)]"
        by (subst toStringNat.simps) simp
      with n "1.prems" have eq: "toStringNat (n div 10) = toStringNat (m div 10)"
        and dg: "digitChar (n mod 10) = digitChar (m mod 10)"
        by simp_all
      from "1.IH" [OF False eq] have "n div 10 = m div 10" .
      moreover from dg have "n mod 10 = m mod 10"
        by (intro digitChar_inj) simp_all
      ultimately show ?thesis
        by (metis div_mult_mod_eq)
    qed
  qed
qed

lemma pageUrl_inj: "pageUrl url p = pageUrl url q \<longleftrightarrow> p = q"
  by (auto simp: pageUrl_def dest: toStringNat_inj)

lemma toStringNat_4: "toStringNat 4 = ''4''"
  by (subst toStringNat.simps) (simp add: digitChar_def)

lemma servedPage_fourPages:
  "servedPage fourPages exampleSearchUrl headers p = Some (examplePages p)"
proof -
  have "pageUrl exampleSearchUrl p = exampleSearchUrl @ ''&page=4'' \<longleftrightarrow> p = 4"
    using pageUrl_inj [of exampleSearchUrl p 4] by (simp add: pageUrl_def toStringNat_4)
  then show ?thesis
    by (simp add: servedPage_def fourPages_def okResponse_def ok_def examplePages_def)
qed

lemma upt_1_11: "[1..<Suc 10] = [1, 2, 3, 4, 5, 6, 7, 8, 9, 10]"
  by code_simp

lemma pagesUpToShort_example:
  "pagesUpToShort (map examplePages [1..<Suc 10])
     = [replicate 100 0, replicate 100 0, replicate 100 0, replicate 40 0]"
  unfolding upt_1_11 by (simp add: examplePages_def)

text \<open>
  C2, as the code has it. When the provider serves page \<open>p\<close> as \<open>pages p\<close> for every
  page number up to the ceiling, the pager returns the concatenation, in request order,
  of the pages up to and including the first empty or short page (fewer than 100 items),
  or of all pages up to the ceiling when none is short; and it requests exactly those
  pages, one request each, in order. (The result does not depend on what the provider
  would serve beyond the ceiling or after the short page.)
\<close>

theorem C2_pager_concatenates_pages:
  assumes "\<forall>p. 1 \<le> p \<and> p \<le> maxPages \<longrightarrow> servedPage fetch url headers p = Some (pages p)"
  shows "fetchSearchPages fetch url headers maxPages reqs =
     (Inr (concat (pagesUpToShort (map pages [1..<Suc maxPages]))),
      reqs @ map (\<lambda>p. (pageUrl url p, headers))
               [1..<Suc (length (pagesUpToShort (map pages [1..<Suc maxPages])))])"
  unfolding fetchSearchPages_def
  using fetchSearchPages_loop_served [OF assms, of "[]" reqs] by simp

text \<open>
  Three full pages of 100 and then a page of 40, with the ceiling at 10: the result has
  340 items, and four requests are made, for pages 1, 2, 3 and 4.
\<close>

theorem C2_pager_example_340:
  "servedPage fourPages exampleSearchUrl [] 3 = Some (replicate 100 0)
   \<and> servedPage fourPages exampleSearchUrl [] 4 = Some (replicate 40 0)
   \<and> (\<exists>items. fetchSearchPages fourPages exampleSearchUrl [] 10 []
          = (Inr items, map (\<lambda>p. (pageUrl exampleSearchUrl p, [])) [1, 2, 3, 4])
        \<and> length items = 340)"
proof -
  have h: "\<forall>p. 1 \<le> p \<and> p \<le> 10 \<longrightarrow> servedPage fourPages exampleSearchUrl [] p = Some (examplePages p)"
    by (simp add: servedPage_fourPages)
  have u: "[1..<Suc (length [a, b, c, d])] = [1, 2, 3, 4]" for a b c d :: "nat list"
    by (simp add: upt_conv_Cons)
  have "servedPage fourPages exampleSearchUrl [] 3 = Some (replicate 100 0)"
    "servedPage fourPages exampleSearchUrl [] 4 = Some (replicate 40 0)"
    by (simp_all add: servedPage_fourPages examplePages_def)
  with C2_pager_concatenates_pages [OF h, of "[]"] show ?thesis
    unfolding pagesUpToShort_example u by simp
qed

text \<open>
  The part of C2 that the code does not satisfy: in that example the fourth search page
  is requested (the page of 40 items is the fourth page); the request that is not made
  is the fifth.
\<close>

theorem C2_fourth_page_is_requested:
  "snd (fetchSearchPages fourPages exampleSearchUrl [] 10 [])
     = [(exampleSearchUrl @ ''&page=1'', []), (exampleSearchUrl @ ''&page=2'', []),
        (exampleSearchUrl @ ''&page=3'', []), (exampleSearchUrl @ ''&page=4'', [])]
   \<and> length (projr (fst (fetchSearchPages fourPages exampleSearchUrl [] 10 []))) = 340"
proof -
  have h: "\<forall>p. 1 \<le> p \<and> p \<le> 10 \<longrightarrow> servedPage fourPages exampleSearchUrl [] p = Some (examplePages p)"
    by (simp add: servedPage_fourPages)
  have u: "[1..<1 + length [a, b, c, d]] = [1, 2, 3, 4]" for a b c d :: "nat list"
    by (simp add: upt_conv_Cons)
  have s: "toStringNat 1 = ''1''" "toStringNat 2 = ''2''" "toStringNat 3 = ''3''"
    by (subst toStringNat.simps, simp add: digitChar_def)+
  from fetchSearchPages_loop_served [OF h, of "[]" "[]"] show ?thesis
    unfolding fetchSearchPages_def pagesUpToShort_example u
    by (simp add: pageUrl_def s toStringNat_4 del: One_nat_def)
qed

section \<open>Properties of the fetchers\<close>

lemma toStringNat_5: "toStringNat 5 = ''5''"
  by (subst toStringNat.simps) (simp add: digitChar_def)

lemma enrichPR_fetchedDetails:
  "enrichPR fetch headers pr =
     (case fetchedDetails fetch headers pr of
        None \<Rightarrow> pr
      | Some d \<Rightarrow> pr\<lparr>additions := details_additions d, deletions := details_deletions d\<rparr>)"
  by (simp add: enrichPR_def fetchedDetails_def split: sum.splits)

lemma length_enrichPRs: "length (enrichPRs fetch headers prs) = length prs"
  by (simp add: enrichPRs_def)

lemma nth_enrichPRs:
  assumes "i < length prs"
  shows "enrichPRs fetch headers prs ! i
           = (if i < 20 then enrichPR fetch headers (prs ! i) else prs ! i)"
proof (cases "i < 20")
  case True
  with assms have "i < length (take 20 prs)" by simp
  then show ?thesis
    using True by (simp add: enrichPRs_def nth_append)
next
  case False
  with assms show ?thesis
    by (auto simp add: enrichPRs_def nth_append min_def)
qed

lemma fetchUserPullRequests_search_ok:
  assumes "username \<noteq> []"
    and "fetchSearchPages fetch (pullRequestsUrl username startDate endDate)
           (requestHeaders ''application/vnd.github.v3+json'' token) 10 reqs = (Inr items, reqs')"
  shows "fetchUserPullRequests fetch fetchDetails username token startDate endDate reqs
           = (Inr (enrichPRs fetchDetails (requestHeaders ''application/vnd.github.v3+json'' token)
                     (map basicPR items)),
              reqs' @ enrichRequests (requestHeaders ''application/vnd.github.v3+json'' token)
                        (map basicPR items))"
  using assms by (simp add: fetchUserPullRequests_def Let_def)

text \<open>
  C6. The output has the length of the input. Every item at position 20 or later is the
  input item. Every item at a position below 20 is the input item with the size-impact
  pair of its detail request when that request succeeds (an \<^verbatim>\<open>ok\<close> response whose body
  can be read), and the input item itself when the request fails in any way; what one
  item's request does has no effect on another item. The items keep their positions. The
  fetcher fails only when the search fails: once the search has returned its items, the
  result is the enriched list whatever the detail requests do, and the detail requests
  issued are those of the first 20 items, in order.
\<close>

theorem C6_enrichment_prefix_and_failures:
  "length (enrichPRs fetchDetails headers prs) = length prs
   \<and> (\<forall>i < length prs.
         enrichPRs fetchDetails headers prs ! i
           = (if i < 20 then
                (case fetchedDetails fetchDetails headers (prs ! i) of
                   None \<Rightarrow> prs ! i
                 | Some d \<Rightarrow> (prs ! i)\<lparr>additions := details_additions d,
                                         deletions := details_deletions d\<rparr>)
              else prs ! i))
   \<and> map pr_id (enrichPRs fetchDetails headers prs) = map pr_id prs
   \<and> (username \<noteq> [] \<and>
        fetchSearchPages fetch (pullRequestsUrl username startDate endDate)
           (requestHeaders ''application/vnd.github.v3+json'' token) 10 reqs = (Inr items, reqs')
        \<longrightarrow> fetchUserPullRequests fetch fetchDetails username token startDate endDate reqs
             = (Inr (enrichPRs fetchDetails (requestHeaders ''application/vnd.github.v3+json'' token)
                      (map basicPR items)),
                reqs' @ map (\<lambda>pr. (pr_api_url pr, requestHeaders ''application/vnd.github.v3+json'' token))
                          (take 20 (map basicPR items))))"
proof -
  have nth: "\<forall>i < length prs.
         enrichPRs fetchDetails headers prs ! i
           = (if i < 20 then
                (case fetchedDetails fetchDetails headers (prs ! i) of
                   None \<Rightarrow> prs ! i
                 | Some d \<Rightarrow> (prs ! i)\<lparr>additions := details_additions d,
                                         deletions := details_deletions d\<rparr>)
              else prs ! i)"
    by (simp add: nth_enrichPRs enrichPR_fetchedDetails)
  have "pr_id (enrichPR fetchDetails headers pr) = pr_id pr" for pr
    by (simp add: enrichPR_fetchedDetails split: option.splits)
  then have "map pr_id (map (enrichPR fetchDetails headers) (take 20 prs)) = map pr_id (take 20 prs)"
    by simp
  then have ids: "map pr_id (enrichPRs fetchDetails headers prs) = map pr_id prs"
    unfolding enrichPRs_def Let_def map_append
    by (simp add: take_map [symmetric] drop_map [symmetric] del: map_map)
  show ?thesis
    using nth ids length_enrichPRs [of fetchDetails headers prs]
      fetchUserPullRequests_search_ok [of username fetch startDate endDate token reqs items reqs' fetchDetails]
    by (simp add: enrichRequests_def)
qed

lemma fetchedDetails_example:
  "fetchedDetails detailsFailFor5 headers (basicPR (exampleItem i))
     = (if i = 5 then None
        else Some \<lparr>details_additions = Some 10, details_deletions = Some 2\<rparr>)"
proof -
  have "toStringNat i = ''5'' \<longleftrightarrow> i = 5"
    using toStringNat_inj [of i 5] by (auto simp: toStringNat_5)
  then show ?thesis
    by (simp add: fetchedDetails_def detailsFailFor5_def basicPR_def exampleItem_def
          okResponse_def ok_def)
qed

text \<open>
  The example of C6: 25 pull requests, the detail request of item 5 rejected. Items 0-4
  and 6-19 carry the size-impact pair, item 5 and items 20-24 are as fetched, and the
  fetcher returns the list.
\<close>

theorem C6_example_25_with_failure_on_5:
  "enrichPRs detailsFailFor5 [] (map (\<lambda>i. basicPR (exampleItem i)) [0..<25])
     = map (\<lambda>i. if i < 20 \<and> i \<noteq> 5
                 then (basicPR (exampleItem i))\<lparr>additions := Some 10, deletions := Some 2\<rparr>
                 else basicPR (exampleItem i)) [0..<25]
   \<and> fst (fetchUserPullRequests onePageOf25 detailsFailFor5 ''octocat'' [] ''2024-01-01''
            ''2024-03-01'' [])
       = Inr (enrichPRs detailsFailFor5 [(''Accept'', ''application/vnd.github.v3+json'')]
                (map (\<lambda>i. basicPR (exampleItem i)) [0..<25]))"
proof -
  let ?prs = "map (\<lambda>i. basicPR (exampleItem i)) [0..<25]"
  note inst = C6_enrichment_prefix_and_failures [of detailsFailFor5 "[]" "map (\<lambda>i. basicPR (exampleItem i)) [0..<25]" "''octocat''"
      onePageOf25 "''2024-01-01''" "''2024-03-01''" "[]" "[]" "map exampleItem [0..<25]"
      "[(pageUrl (pullRequestsUrl ''octocat'' ''2024-01-01'' ''2024-03-01'') 1,
         [(''Accept'', ''application/vnd.github.v3+json'')])]"]
  have len: "length (enrichPRs detailsFailFor5 [] ?prs) = 25"
    using inst by simp
  have nth: "enrichPRs detailsFailFor5 [] ?prs ! i
       = (if i < 20 \<and> i \<noteq> 5
          then (basicPR (exampleItem i))\<lparr>additions := Some 10, deletions := Some 2\<rparr>
          else basicPR (exampleItem i))" if "i < 25" for i
  proof -
    from inst that have "enrichPRs detailsFailFor5 [] ?prs ! i
           = (if i < 20 then
                (case fetchedDetails detailsFailFor5 [] (?prs ! i) of
                   None \<Rightarrow> ?prs ! i
                 | Some d \<Rightarrow> (?prs ! i)\<lparr>additions := details_additions d,
                                         deletions := details_deletions d\<rparr>)
              else ?prs ! i)"
      by simp
    moreover have "?prs ! i = basicPR (exampleItem i)"
      using that by simp
    ultimately show ?thesis
      by (simp add: fetchedDetails_example)
  qed
  have first: "enrichPRs detailsFailFor5 [] ?prs
     = map (\<lambda>i. if i < 20 \<and> i \<noteq> 5
                 then (basicPR (exampleItem i))\<lparr>additions := Some 10, deletions := Some 2\<rparr>
                 else basicPR (exampleItem i)) [0..<25]"
    by (rule nth_equalityI) (simp_all add: len nth del: upt_Suc)
  have page: "servedPage onePageOf25 url headers p = Some (map exampleItem [0..<25])" for url headers p
    by (simp add: servedPage_def onePageOf25_def okResponse_def ok_def)
  have search: "fetchSearchPages onePageOf25 (pullRequestsUrl ''octocat'' ''2024-01-01'' ''2024-03-01'')
           (requestHeaders ''application/vnd.github.v3+json'' []) 10 []
        = (Inr (map exampleItem [0..<25]),
           [(pageUrl (pullRequestsUrl ''octocat'' ''2024-01-01'' ''2024-03-01'') 1,
             [(''Accept'', ''application/vnd.github.v3+json'')])])"
    unfolding fetchSearchPages_def
    by (subst fetchSearchPages_loop.simps)
       (simp add: onePageOf25_def okResponse_def handleErrors_def ok_def requestHeaders_def
          del: upt_Suc)
  have second: "fst (fetchUserPullRequests onePageOf25 detailsFailFor5 ''octocat'' [] ''2024-01-01''
            ''2024-03-01'' [])
       = Inr (enrichPRs detailsFailFor5 [(''Accept'', ''application/vnd.github.v3+json'')] ?prs)"
    using inst search by (simp add: requestHeaders_def comp_def del: upt_Suc)
  from first second show ?thesis by blast
qed

text \<open>
  C9. The enriched list has the length of the input, and at every position every field
  other than \<^verbatim>\<open>additions\<close> and \<^verbatim>\<open>deletions\<close> is the input's: the output item is the
  input item, or the input item with the pair of a detail response written into it.
\<close>

theorem C9_enrichment_changes_only_size_impact:
  "length (enrichPRs fetchDetails headers prs) = length prs
   \<and> (\<forall>i < length prs.
         pr_id (enrichPRs fetchDetails headers prs ! i) = pr_id (prs ! i)
       \<and> pr_number (enrichPRs fetchDetails headers prs ! i) = pr_number (prs ! i)
       \<and> pr_title (enrichPRs fetchDetails headers prs ! i) = pr_title (prs ! i)
       \<and> pr_html_url (enrichPRs fetchDetails headers prs ! i) = pr_html_url (prs ! i)
       \<and> pr_api_url (enrichPRs fetchDetails headers prs ! i) = pr_api_url (prs ! i)
       \<and> pr_state (enrichPRs fetchDetails headers prs ! i) = pr_state (prs ! i)
       \<and> pr_created_at (enrichPRs fetchDetails headers prs ! i) = pr_created_at (prs ! i)
       \<and> pr_merged_at (enrichPRs fetchDetails headers prs ! i) = pr_merged_at (prs ! i)
       \<and> pr_body (enrichPRs fetchDetails headers prs ! i) = pr_body (prs ! i)
       \<and> pr_repository_url (enrichPRs fetchDetails headers prs ! i) = pr_repository_url (prs ! i)
       \<and> (enrichPRs fetchDetails headers prs ! i = prs ! i
          \<or> (\<exists>d :: pull_details. enrichPRs fetchDetails headers prs ! i
                   = (prs ! i)\<lparr>additions := details_additions d,
                                deletions := details_deletions d\<rparr>)))"
proof -
  have one: "enrichPR fetchDetails headers pr = pr
      \<or> (\<exists>d :: pull_details. enrichPR fetchDetails headers pr
               = pr\<lparr>additions := details_additions d, deletions := details_deletions d\<rparr>)" for pr
  proof (cases "fetchedDetails fetchDetails headers pr")
    case None
    then show ?thesis by (simp add: enrichPR_fetchedDetails)
  next
    case (Some d)
    then have "enrichPR fetchDetails headers pr
               = pr\<lparr>additions := details_additions d, deletions := details_deletions d\<rparr>"
      by (simp add: enrichPR_fetchedDetails)
    then show ?thesis by (intro disjI2 exI [of _ d])
  qed
  have nth: "enrichPRs fetchDetails headers prs ! i = prs ! i
      \<or> (\<exists>d :: pull_details. enrichPRs fetchDetails headers prs ! i
               = (prs ! i)\<lparr>additions := details_additions d, deletions := details_deletions d\<rparr>)"
    if "i < length prs" for i
    using one [of "prs ! i"] by (auto simp add: nth_enrichPRs [OF that])
  show ?thesis
  proof (intro conjI allI impI)
    show "length (enrichPRs fetchDetails headers prs) = length prs"
      by (rule length_enrichPRs)
  qed (use nth in \<open>fastforce+\<close>)
qed

text \<open>Item 3 of the example with 25 pull requests.\<close>

theorem C9_example_item_3:
  "3 < length (map (\<lambda>i. basicPR (exampleItem i)) [0..<25])
   \<and> pr_id (enrichPRs detailsFailFor5 [] (map (\<lambda>i. basicPR (exampleItem i)) [0..<25]) ! 3) = 3
   \<and> pr_title (enrichPRs detailsFailFor5 [] (map (\<lambda>i. basicPR (exampleItem i)) [0..<25]) ! 3)
       = ''change''
   \<and> pr_repository_url (enrichPRs detailsFailFor5 [] (map (\<lambda>i. basicPR (exampleItem i)) [0..<25]) ! 3)
       = ''https://api.github.com/repos/org/repo''
   \<and> length (enrichPRs detailsFailFor5 [] (map (\<lambda>i. basicPR (exampleItem i)) [0..<25])) = 25"
proof -
  have len: "3 < length (map (\<lambda>i. basicPR (exampleItem i)) [0..<25])"
    by simp
  have item: "map (\<lambda>i. basicPR (exampleItem i)) [0..<25] ! 3 = basicPR (exampleItem 3)"
    by (simp del: upt_Suc)
  from C9_enrichment_changes_only_size_impact
         [of detailsFailFor5 "[]" "map (\<lambda>i. basicPR (exampleItem i)) [0..<25]"] len
  show ?thesis
    unfolding item by (simp add: basicPR_def exampleItem_def del: upt_Suc)
qed

text \<open>
  C7. With an empty login both fetchers fail with the message \<^verbatim>\<open>Username is required\<close>
  and issue no request: the list of requests is returned as it was given, whatever the
  network would have answered. The message is none of those \<^verbatim>\<open>handleErrors\<close> gives a
  response of the network.
\<close>

theorem C7_empty_login_is_input_error:
  "fetchUserPullRequests fetch fetchDetails [] token startDate endDate reqs
     = (Inl ''Username is required'', reqs)
   \<and> fetchUserCommits fetchCommits [] token startDate endDate reqs
     = (Inl ''Username is required'', reqs)
   \<and> handleErrors response \<noteq> Inl ''Username is required''"
  by (simp add: fetchUserPullRequests_def fetchUserCommits_def handleErrors_def)

lemma fetchUserCommits_search_ok:
  assumes "username \<noteq> []"
    and "fetchSearchPages fetch (commitsUrl username startDate endDate)
           (requestHeaders ''application/vnd.github.cloak-preview+json'' token) 10 reqs
         = (Inr items, reqs')"
  shows "fetchUserCommits fetch username token startDate endDate reqs
           = (Inr (map commitOfItem items), reqs')"
  using assms by (simp add: fetchUserCommits_def Let_def)

text \<open>
  C10, as the code has it. A commit search item without a repository object, or whose
  repository object has no (or an empty) human URL, is normalised to a commit whose
  \<^verbatim>\<open>repository_url\<close> is \<^verbatim>\<open>Unknown Repo\<close>, and the commit fetcher returns the
  normalised items whenever the search succeeds. Reconciliation does not read that
  field: such a commit is retained exactly when the human URL of a selected repository
  is a prefix of the commit's own human URL.
\<close>

theorem C10_missing_repository_gives_sentinel:
  "(item_repository item = None \<or> item_repository item = Some None
      \<or> item_repository item = Some (Some [])
      \<longrightarrow> commit_repository_url (commitOfItem item) = ''Unknown Repo'')
   \<and> (username \<noteq> [] \<and>
        fetchSearchPages fetch (commitsUrl username startDate endDate)
           (requestHeaders ''application/vnd.github.cloak-preview+json'' token) 10 reqs
         = (Inr items, reqs')
        \<longrightarrow> fetchUserCommits fetch username token startDate endDate reqs
             = (Inr (map commitOfItem items), reqs'))
   \<and> filteredCommits repositories selectedRepoIds [commitOfItem item]
       = (if \<exists>r \<in> set repositories. repo_id r \<in> selectedRepoIds
                \<and> prefix (repo_html_url r) (item_commit_html_url item)
          then [commitOfItem item] else [])"
proof -
  have a: "item_repository item = None \<or> item_repository item = Some None
      \<or> item_repository item = Some (Some [])
      \<longrightarrow> commit_repository_url (commitOfItem item) = ''Unknown Repo''"
    by (auto simp: commitOfItem_def orElse_def)
  have c: "filteredCommits repositories selectedRepoIds [commitOfItem item]
       = (if \<exists>r \<in> set repositories. repo_id r \<in> selectedRepoIds
                \<and> prefix (repo_html_url r) (item_commit_html_url item)
          then [commitOfItem item] else [])"
    by (simp add: filteredCommits_def list_ex_iff startsWith_prefix commitOfItem_def)
  from a c fetchUserCommits_search_ok [of username fetch startDate endDate token reqs items reqs']
  show ?thesis by blast
qed

text \<open>
  A page of two items, one without a repository object and one whose repository object
  has no human URL; neither is retained when only \<^verbatim>\<open>https://host/org/other\<close> is selected.
\<close>

theorem C10_example_sentinel_and_other_repo:
  "fst (fetchUserCommits oneCommitPage ''octocat'' [] ''2024-01-01'' ''2024-03-01'' [])
     = Inr [commitOfItem (exampleCommitItem None), commitOfItem (exampleCommitItem (Some None))]
   \<and> commit_repository_url (commitOfItem (exampleCommitItem (Some None))) = ''Unknown Repo''
   \<and> filteredCommits [mkRepo 1 ''https://api.host/repos/org/other'' ''https://host/org/other''] {1}
        [commitOfItem (exampleCommitItem (Some None))] = []"
proof -
  have search: "fetchSearchPages oneCommitPage (commitsUrl ''octocat'' ''2024-01-01'' ''2024-03-01'')
           (requestHeaders ''application/vnd.github.cloak-preview+json'' []) 10 []
        = (Inr [exampleCommitItem None, exampleCommitItem (Some None)],
           [(pageUrl (commitsUrl ''octocat'' ''2024-01-01'' ''2024-03-01'') 1,
             requestHeaders ''application/vnd.github.cloak-preview+json'' [])])"
    unfolding fetchSearchPages_def
    by (subst fetchSearchPages_loop.simps)
       (simp add: oneCommitPage_def okResponse_def handleErrors_def ok_def)
  have item: "item_repository (exampleCommitItem (Some None)) = Some None"
    "item_commit_html_url (exampleCommitItem (Some None)) = ''https://host/org/repo/commit/abc''"
    by (simp_all add: exampleCommitItem_def)
  from C10_missing_repository_gives_sentinel [of "exampleCommitItem (Some None)" "''octocat''"
          oneCommitPage "''2024-01-01''" "''2024-03-01''" "[]" "[]"
          "[exampleCommitItem None, exampleCommitItem (Some None)]"
          "[(pageUrl (commitsUrl ''octocat'' ''2024-01-01'' ''2024-03-01'') 1,
             requestHeaders ''application/vnd.github.cloak-preview+json'' [])]"
          "[mkRepo 1 ''https://api.host/repos/org/other'' ''https://host/org/other'']" "{1}"]
    search item
  show ?thesis
    by (simp add: mkRepo_def)
qed

text \<open>
  The part of C10 that the code does not satisfy: a commit whose \<^verbatim>\<open>repository_url\<close> is
  the sentinel is retained by the reconciliation when its own human URL starts with the
  human URL of a selected repository.
\<close>

theorem C10_sentinel_commit_is_retained:
  "commit_repository_url (commitOfItem (exampleCommitItem None)) = ''Unknown Repo''
   \<and> filteredCommits [mkRepo 1 ''https://api.host/repos/org/repo'' ''https://host/org/repo''] {1}
        [commitOfItem (exampleCommitItem None)] = [commitOfItem (exampleCommitItem None)]"
  by (simp add: commitOfItem_def exampleCommitItem_def filteredCommits_def mkRepo_def)

section \<open>Properties of the calendar\<close>

lemma div_step:
  fixes a c :: int
  assumes "0 < c"
  shows "(a + 1) div c = a div c + (if (a + 1) mod c = 0 then 1 else 0)"
proof (cases "a mod c + 1 = c")
  case True
  have e: "c * (a div c) + a mod c = a"
    by (rule mult_div_mod_eq)
  have "c * (a div c + 1) = c * (a div c) + c"
    by (simp add: algebra_simps)
  with e True have eq: "a + 1 = c * (a div c + 1) + 0"
    by linarith
  have "(a + 1) div c = a div c + 1"
    by (rule int_div_pos_eq [OF eq]) (use assms in simp_all)
  moreover have "(a + 1) mod c = 0"
    by (rule int_mod_pos_eq [OF eq]) (use assms in simp_all)
  ultimately show ?thesis by simp
next
  case False
  have r: "0 \<le> a mod c + 1" "a mod c + 1 < c"
    using False assms pos_mod_bound [of c a] pos_mod_sign [of c a] by linarith+
  have "c * (a div c) + a mod c = a"
    by (rule mult_div_mod_eq)
  then have eq: "a + 1 = c * (a div c) + (a mod c + 1)"
    by linarith
  have "(a + 1) div c = a div c"
    by (rule int_div_pos_eq [OF eq r])
  moreover have "(a + 1) mod c = a mod c + 1"
    by (rule int_mod_pos_eq [OF eq r])
  moreover have "a mod c + 1 \<noteq> 0"
    using pos_mod_sign [of c a] assms by linarith
  ultimately show ?thesis by simp
qed

lemma mod_shift4: "((y::int) - 1968) mod 4 = y mod 4"
  using mod_mult_self2 [of y 4 "- 492"] by simp

lemma mod_shift100: "((y::int) - 1900) mod 100 = y mod 100"
  using mod_mult_self2 [of y 100 "- 19"] by simp

lemma mod_shift400: "((y::int) - 1600) mod 400 = y mod 400"
  using mod_mult_self2 [of y 400 "- 4"] by simp

lemma mod_400_100: "(y::int) mod 400 = 0 \<Longrightarrow> y mod 100 = 0"
proof -
  assume "y mod 400 = 0"
  then have "400 dvd y" by (simp add: mod_eq_0_iff_dvd)
  moreover have "(100::int) dvd 400" by simp
  ultimately have "100 dvd y" by (rule dvd_trans [rotated])
  then show ?thesis by (simp add: mod_eq_0_iff_dvd)
qed

lemma mod_100_4: "(y::int) mod 100 = 0 \<Longrightarrow> y mod 4 = 0"
proof -
  assume "y mod 100 = 0"
  then have "100 dvd y" by (simp add: mod_eq_0_iff_dvd)
  moreover have "(4::int) dvd 100" by simp
  ultimately have "4 dvd y" by (rule dvd_trans [rotated])
  then show ?thesis by (simp add: mod_eq_0_iff_dvd)
qed

lemma DayFromYear_next: "DayFromYear (y + 1) = DayFromYear y + DaysInYear y"
proof -
  have a: "(y + 1 - 1969) div 4 = (y - 1969) div 4 + (if y mod 4 = 0 then 1 else 0)"
    using div_step [of 4 "y - 1969"] mod_shift4 [of y] by (simp add: algebra_simps)
  have b: "(y + 1 - 1901) div 100 = (y - 1901) div 100 + (if y mod 100 = 0 then 1 else 0)"
    using div_step [of 100 "y - 1901"] mod_shift100 [of y] by (simp add: algebra_simps)
  have c: "(y + 1 - 1601) div 400 = (y - 1601) div 400 + (if y mod 400 = 0 then 1 else 0)"
    using div_step [of 400 "y - 1601"] mod_shift400 [of y] by (simp add: algebra_simps)
  show ?thesis
    unfolding DayFromYear_def DaysInYear_def a b c
    using mod_400_100 [of y] mod_100_4 [of y] by auto
qed

lemma div_lower: "0 < c \<Longrightarrow> c * (a div c) \<le> (a::int)"
  using mult_div_mod_eq [of c a] pos_mod_sign [of c a] by linarith

lemma div_upper: "0 < c \<Longrightarrow> (a::int) < c * (a div c) + c"
  using mult_div_mod_eq [of c a] pos_mod_bound [of c a] by linarith

lemmas div4 = div_lower [of 4, OF zero_less_numeral] div_upper [of 4, OF zero_less_numeral]
lemmas div100 = div_lower [of 100, OF zero_less_numeral] div_upper [of 100, OF zero_less_numeral]
lemmas div400 = div_lower [of 400, OF zero_less_numeral] div_upper [of 400, OF zero_less_numeral]

lemma DayFromYear_linear:
  fixes y :: int
  obtains a b c where "DayFromYear y = 365 * (y - 1970) + a - b + c"
    and "4 * a \<le> y - 1969" "y - 1969 < 4 * a + 4"
    and "100 * b \<le> y - 1901" "y - 1901 < 100 * b + 100"
    and "400 * c \<le> y - 1601" "y - 1601 < 400 * c + 400"
  using div4 [of "y - 1969"] div100 [of "y - 1901"] div400 [of "y - 1601"]
  unfolding DayFromYear_def by blast

lemma DayFromYear_upper: "400 * DayFromYear y \<le> 146097 * (y - 1970) + 589"
proof -
  obtain a b c where "DayFromYear y = 365 * (y - 1970) + a - b + c"
    and "4 * a \<le> y - 1969" "y - 1969 < 4 * a + 4"
    and "100 * b \<le> y - 1901" "y - 1901 < 100 * b + 100"
    and "400 * c \<le> y - 1601" "y - 1601 < 400 * c + 400"
    by (rule DayFromYear_linear)
  then show ?thesis by (simp add: algebra_simps)
qed

lemma DayFromYear_lower: "146097 * (y - 1970) - 506 \<le> 400 * DayFromYear y"
proof -
  obtain a b c where "DayFromYear y = 365 * (y - 1970) + a - b + c"
    and "4 * a \<le> y - 1969" "y - 1969 < 4 * a + 4"
    and "100 * b \<le> y - 1901" "y - 1901 < 100 * b + 100"
    and "400 * c \<le> y - 1601" "y - 1601 < 400 * c + 400"
    by (rule DayFromYear_linear)
  then show ?thesis by (simp add: algebra_simps)
qed

lemma DaysInYear_cases: "DaysInYear y = 365 \<or> DaysInYear y = 366"
  by (simp add: DaysInYear_def)

lemma DayFromYear_add: "DayFromYear y + 365 * int n \<le> DayFromYear (y + int n)"
proof (induction n)
  case 0
  show ?case by simp
next
  case (Suc n)
  have "DayFromYear (y + int (Suc n)) = DayFromYear (y + int n) + DaysInYear (y + int n)"
    using DayFromYear_next [of "y + int n"] by (simp add: algebra_simps)
  with Suc DaysInYear_cases [of "y + int n"] show ?case
    by (auto simp add: algebra_simps)
qed

lemma DayFromYear_strict_mono:
  assumes "y < y'"
  shows "DayFromYear y < DayFromYear y'"
proof -
  from assms obtain n where n: "y' = y + int n" "0 < n"
    by (metis zless_iff_Suc_zadd zero_less_Suc)
  from DayFromYear_add [of y n] n show ?thesis
    by simp
qed

lemma DayFromYear_mono: "y \<le> y' \<Longrightarrow> DayFromYear y \<le> DayFromYear y'"
  using DayFromYear_strict_mono [of y y'] by (cases "y = y'") auto

lemma YearFromDay_estimate:
  fixes d :: int
  defines "y \<equiv> 1970 + (400 * d) div 146097"
  shows "DayFromYear (y - 1) \<le> d" and "d < DayFromYear (y + 2)"
proof -
  define q where "q = (400 * d) div 146097"
  have q: "146097 * q \<le> 400 * d" "400 * d < 146097 * q + 146097"
    unfolding q_def
    using div_lower [of 146097 "400 * d"] div_upper [of 146097 "400 * d"] by simp_all
  have y: "y = 1970 + q"
    by (simp add: y_def q_def)
  from DayFromYear_upper [of "y - 1"] have "400 * DayFromYear (y - 1) \<le> 146097 * q - 145508"
    unfolding y by (simp add: algebra_simps)
  with q show "DayFromYear (y - 1) \<le> d"
    by linarith
  from DayFromYear_lower [of "y + 2"] have "146097 * q + 291688 \<le> 400 * DayFromYear (y + 2)"
    unfolding y by (simp add: algebra_simps)
  with q show "d < DayFromYear (y + 2)"
    by linarith
qed

lemma YearFromDay_bounds:
  "DayFromYear (YearFromDay d) \<le> d" "d < DayFromYear (YearFromDay d + 1)"
  using YearFromDay_estimate [of d]
  by (auto simp add: YearFromDay_def Let_def algebra_simps)

lemma YearFromDay_iff:
  "YearFromDay d = y \<longleftrightarrow> DayFromYear y \<le> d \<and> d < DayFromYear (y + 1)"
proof
  assume "YearFromDay d = y"
  with YearFromDay_bounds [of d] show "DayFromYear y \<le> d \<and> d < DayFromYear (y + 1)"
    by simp
next
  assume a: "DayFromYear y \<le> d \<and> d < DayFromYear (y + 1)"
  show "YearFromDay d = y"
  proof (rule ccontr)
    assume "YearFromDay d \<noteq> y"
    then consider "YearFromDay d + 1 \<le> y" | "y + 1 \<le> YearFromDay d"
      by linarith
    then show False
    proof cases
      case 1
      from DayFromYear_mono [OF 1] YearFromDay_bounds(2) [of d] a show False by linarith
    next
      case 2
      from DayFromYear_mono [OF 2] YearFromDay_bounds(1) [of d] a show False by linarith
    qed
  qed
qed

lemma monthStart_simps:
  "monthStart 0 l = 0" "monthStart 1 l = 31" "monthStart 2 l = 59 + l" "monthStart 3 l = 90 + l"
  "monthStart 4 l = 120 + l" "monthStart 5 l = 151 + l" "monthStart 6 l = 181 + l"
  "monthStart 7 l = 212 + l" "monthStart 8 l = 243 + l" "monthStart 9 l = 273 + l"
  "monthStart 10 l = 304 + l" "monthStart 11 l = 334 + l"
  by (simp_all add: monthStart_def)

lemma month_cases:
  fixes m :: int
  assumes "0 \<le> m" "m \<le> 11"
  obtains "m = 0" | "m = 1" | "m = 2" | "m = 3" | "m = 4" | "m = 5" | "m = 6" | "m = 7"
    | "m = 8" | "m = 9" | "m = 10" | "m = 11"
proof -
  have "[0..11::int] = [0, 1, 2, 3, 4, 5, 6, 7, 8, 9, 10, 11]"
    by code_simp
  moreover have "m \<in> set [0..11]"
    using assms by simp
  ultimately have "m \<in> {0, 1, 2, 3, 4, 5, 6, 7, 8, 9, 10, 11}"
    by simp
  with that show thesis
    by blast
qed

lemma MonthFromTime_range: "0 \<le> MonthFromTime t" "MonthFromTime t \<le> 11"
  by (simp_all add: MonthFromTime_def Let_def)

lemma InLeapYear_cases: "InLeapYear t = 0 \<or> InLeapYear t = 1"
  by (simp add: InLeapYear_def)

lemma DayWithinYear_bounds:
  "0 \<le> DayWithinYear t" "DayWithinYear t < 365 + InLeapYear t"
proof -
  show "0 \<le> DayWithinYear t"
    using YearFromDay_bounds(1) [of "Day t"] by (simp add: DayWithinYear_def YearFromTime_def)
  have "Day t < DayFromYear (YearFromTime t) + DaysInYear (YearFromTime t)"
    using YearFromDay_bounds(2) [of "Day t"] DayFromYear_next [of "YearFromDay (Day t)"]
    by (simp add: YearFromTime_def)
  then show "DayWithinYear t < 365 + InLeapYear t"
    using DaysInYear_cases [of "YearFromTime t"]
    by (auto simp add: DayWithinYear_def InLeapYear_def)
qed

lemma Day_decompose:
  "DayFromYear (YearFromTime t) + monthStart (MonthFromTime t) (InLeapYear t) + DateFromTime t - 1
     = Day t"
  by (simp add: DateFromTime_def DayWithinYear_def)

lemma MakeDay_of_fields:
  "MakeDay (YearFromTime t) (MonthFromTime t) dt = Day t - DateFromTime t + dt"
proof -
  have "MonthFromTime t div 12 = 0" "MonthFromTime t mod 12 = MonthFromTime t"
    using MonthFromTime_range [of t] by simp_all
  then show ?thesis
    using Day_decompose [of t] by (simp add: MakeDay_def InLeapYear_def Let_def)
qed

lemma DateFromTime_range: "1 \<le> DateFromTime t" "DateFromTime t \<le> 31"
  using DayWithinYear_bounds [of t] InLeapYear_cases [of t]
  by (auto simp add: DateFromTime_def MonthFromTime_def Let_def monthStart_simps)

lemma monthStart_bounds:
  assumes "0 \<le> m" "m \<le> 11" "l = 0 \<or> l = 1"
  shows "0 \<le> monthStart m l" "monthStart m l < 365 + l"
  using assms(1,2) by (rule month_cases; use assms(3) in \<open>auto simp: monthStart_simps\<close>)+

lemma fields_of_first_day:
  assumes "Day t = MakeDay y m 1"
  shows "YearFromTime t = y + m div 12" "MonthFromTime t = m mod 12" "DateFromTime t = 1"
proof -
  define ym where "ym = y + m div 12"
  define mn where "mn = m mod 12"
  define l :: int where "l = (if DaysInYear ym = 366 then 1 else 0)"
  have mn: "0 \<le> mn" "mn \<le> 11"
    by (simp_all add: mn_def)
  have l: "l = 0 \<or> l = 1"
    by (simp add: l_def)
  have days: "DaysInYear ym = 365 + l"
    using DaysInYear_cases [of ym] by (auto simp: l_def)
  have day: "Day t = DayFromYear ym + monthStart mn l"
    using assms by (simp add: MakeDay_def Let_def ym_def mn_def l_def)
  have year: "YearFromTime t = ym"
    unfolding YearFromTime_def YearFromDay_iff day DayFromYear_next days
    using monthStart_bounds [OF mn l] by simp
  then have leap: "InLeapYear t = l"
    by (simp add: InLeapYear_def l_def)
  have within: "DayWithinYear t = monthStart mn l"
    by (simp add: DayWithinYear_def year day)
  have month: "MonthFromTime t = mn"
    unfolding MonthFromTime_def Let_def within leap
    using mn by (rule month_cases; use l in \<open>auto simp: monthStart_simps\<close>)
  show "YearFromTime t = y + m div 12"
    using year by (simp add: ym_def)
  show "MonthFromTime t = m mod 12"
    using month by (simp add: mn_def)
  show "DateFromTime t = 1"
    by (simp add: DateFromTime_def within leap month)
qed

lemma MakeDay_normalise: "MakeDay y m d = MakeDay 0 (12 * y + m) d"
proof -
  have "(12 * y + m) div 12 = y + m div 12" "(12 * y + m) mod 12 = m mod 12"
    by simp_all
  then show ?thesis
    by (simp add: MakeDay_def)
qed

lemma MakeDay_month_step: "MakeDay 0 i 1 < MakeDay 0 (i + 1) 1"
proof -
  define ym where "ym = i div 12"
  define mn where "mn = i mod 12"
  define l :: int where "l = (if DaysInYear ym = 366 then 1 else 0)"
  have mn: "0 \<le> mn" "mn \<le> 11"
    by (simp_all add: mn_def)
  have l: "l = 0 \<or> l = 1"
    by (simp add: l_def)
  have this_month: "MakeDay 0 i 1 = DayFromYear ym + monthStart mn l"
    by (simp add: MakeDay_def ym_def mn_def l_def)
  have step: "(i + 1) div 12 = i div 12 + (if (i + 1) mod 12 = 0 then 1 else 0)"
    by (rule div_step) simp
  show ?thesis
  proof (cases "(i + 1) mod 12 = 0")
    case True
    then have "(i + 1) div 12 = ym + 1"
      using step by (simp add: ym_def)
    with True have "MakeDay 0 (i + 1) 1 = DayFromYear (ym + 1)"
      by (simp add: MakeDay_def monthStart_simps)
    also have "\<dots> = DayFromYear ym + (365 + l)"
      using DayFromYear_next [of ym] DaysInYear_cases [of ym] by (auto simp: l_def)
    finally show ?thesis
      using this_month monthStart_bounds(2) [OF mn l] by simp
  next
    case False
    then have d: "(i + 1) div 12 = ym"
      using step by (simp add: ym_def)
    have m: "(i + 1) mod 12 = mn + 1"
    proof -
      have "12 * ((i + 1) div 12) + (i + 1) mod 12 = i + 1" "12 * (i div 12) + i mod 12 = i"
        by (rule mult_div_mod_eq)+
      then show ?thesis
        unfolding d ym_def mn_def by linarith
    qed
    then have "mn \<le> 10"
      using pos_mod_bound [of 12 "i + 1"] by simp
    have next_month: "MakeDay 0 (i + 1) 1 = DayFromYear ym + monthStart (mn + 1) l"
      by (simp add: MakeDay_def d m l_def)
    have "monthStart mn l < monthStart (mn + 1) l"
      using mn by (rule month_cases; use \<open>mn \<le> 10\<close> l in \<open>auto simp: monthStart_simps\<close>)
    with this_month next_month show ?thesis
      by simp
  qed
qed

lemma MakeDay_month_add: "MakeDay 0 i 1 + int n \<le> MakeDay 0 (i + int n) 1"
proof (induction n)
  case 0
  show ?case by simp
next
  case (Suc n)
  from MakeDay_month_step [of "i + int n"] Suc show ?case
    by (simp add: algebra_simps)
qed

lemma MakeDay_month_less_iff: "MakeDay 0 i 1 < MakeDay 0 j 1 \<longleftrightarrow> i < j"
proof -
  have mono: "MakeDay 0 a 1 < MakeDay 0 b 1" if "a < b" for a b
  proof -
    from that obtain n where "b = a + int n" "0 < n"
      by (metis zless_iff_Suc_zadd zero_less_Suc)
    with MakeDay_month_add [of a n] show ?thesis by simp
  qed
  show ?thesis
  proof
    assume "MakeDay 0 i 1 < MakeDay 0 j 1"
    show "i < j"
    proof (rule ccontr)
      assume "\<not> i < j"
      then have "j = i \<or> j < i" by linarith
      with mono [of j i] \<open>MakeDay 0 i 1 < MakeDay 0 j 1\<close> show False by auto
    qed
  qed (rule mono)
qed

lemma MakeDay_month_le_iff: "MakeDay 0 i 1 \<le> MakeDay 0 j 1 \<longleftrightarrow> i \<le> j"
  using MakeDay_month_less_iff [of j i] by linarith

lemma msPerDay_pos: "0 < msPerDay"
  by (simp add: msPerDay_def)

lemma MakeDate_Day: "MakeDate (Day t) (TimeWithinDay t) = t"
  by (simp add: MakeDate_def Day_def TimeWithinDay_def)

lemma TimeWithinDay_range: "0 \<le> TimeWithinDay t" "TimeWithinDay t < msPerDay"
  using msPerDay_pos by (simp_all add: TimeWithinDay_def)

lemma Day_MakeDate:
  assumes "0 \<le> tod" "tod < msPerDay"
  shows "Day (MakeDate D tod) = D" "TimeWithinDay (MakeDate D tod) = tod"
proof -
  have eq: "MakeDate D tod = msPerDay * D + tod"
    by (simp add: MakeDate_def)
  show "Day (MakeDate D tod) = D"
    unfolding Day_def by (rule int_div_pos_eq [OF eq assms])
  show "TimeWithinDay (MakeDate D tod) = tod"
    unfolding TimeWithinDay_def by (rule int_mod_pos_eq [OF eq assms])
qed

lemma Day_add_days: "Day (t + k * msPerDay) = Day t + k"
  using msPerDay_pos div_mult_self2 [of msPerDay t k]
  by (simp add: Day_def mult.commute)

lemma constantOffset_time:
  assumes "constantOffset h tza"
  shows "LocalTime h t = t + tza" "UTC h t = t - tza"
  using assms by (simp_all add: constantOffset_def LocalTime_def UTC_def)

lemma constantOffset_hostAt: "constantOffset (hostAt tza) tza"
  by (simp add: constantOffset_def hostAt_def)

lemma setDate_next_day:
  assumes co: "constantOffset h tza"
  shows "setDate h t (getDate h t + 1) = t + msPerDay"
proof -
  define t' where "t' = LocalTime h t"
  have "MakeDay (YearFromTime t') (MonthFromTime t') (DateFromTime t' + 1) = Day t' + 1"
    by (simp add: MakeDay_of_fields)
  moreover have "MakeDate (Day t' + 1) (TimeWithinDay t') = t' + msPerDay"
    using MakeDate_Day [of t'] by (simp add: MakeDate_def algebra_simps)
  ultimately show ?thesis
    by (simp add: setDate_def getDate_def Let_def t'_def [symmetric])
       (simp add: constantOffset_time [OF co] t'_def)
qed

lemma LocalTime_UTC: "constantOffset h tza \<Longrightarrow> LocalTime h (UTC h t) = t"
  by (simp add: constantOffset_time)

lemma setDate_first: "setDate h t 1 = monthTime h (monthIndex h t) (TimeWithinDay (LocalTime h t))"
  unfolding setDate_def monthTime_def monthIndex_def getFullYear_def getMonth_def Let_def
  by (subst MakeDay_normalise) simp

lemma monthTime_fields:
  assumes tod: "0 \<le> tod" "tod < msPerDay" and co: "constantOffset h tza"
  shows "getFullYear h (monthTime h i tod) = i div 12"
    and "getMonth h (monthTime h i tod) = i mod 12"
    and "monthIndex h (monthTime h i tod) = i"
    and "setMonth h (monthTime h i tod) (getMonth h (monthTime h i tod) + 1) = monthTime h (i + 1) tod"
proof -
  define t' where "t' = MakeDate (MakeDay 0 i 1) tod"
  have local: "LocalTime h (monthTime h i tod) = t'"
    by (simp add: monthTime_def LocalTime_UTC [OF co] t'_def)
  have day: "Day t' = MakeDay 0 i 1" and tod': "TimeWithinDay t' = tod"
    unfolding t'_def by (rule Day_MakeDate [OF tod])+
  note f = fields_of_first_day [OF day]
  show y: "getFullYear h (monthTime h i tod) = i div 12"
    by (simp add: getFullYear_def local f)
  show m: "getMonth h (monthTime h i tod) = i mod 12"
    by (simp add: getMonth_def local f)
  show "monthIndex h (monthTime h i tod) = i"
    by (simp add: monthIndex_def y m)
  have "MakeDay (i div 12) (i mod 12 + 1) 1 = MakeDay 0 (i + 1) 1"
    by (subst MakeDay_normalise) (simp add: algebra_simps)
  then show "setMonth h (monthTime h i tod) (getMonth h (monthTime h i tod) + 1)
               = monthTime h (i + 1) tod"
    unfolding m unfolding setMonth_def Let_def local
    by (simp add: f tod' monthTime_def)
qed

lemma monthTime_le_iff:
  "constantOffset h tza \<Longrightarrow> monthTime h i tod \<le> monthTime h j tod \<longleftrightarrow> i \<le> j"
  using MakeDay_month_le_iff [of i j] msPerDay_pos
  by (simp add: monthTime_def constantOffset_time MakeDate_def)

lemma monthTime_less_iff:
  "constantOffset h tza \<Longrightarrow> monthTime h i tod < monthTime h j tod \<longleftrightarrow> i < j"
  using MakeDay_month_less_iff [of i j] msPerDay_pos
  by (simp add: monthTime_def constantOffset_time MakeDate_def)

section \<open>Properties of the keys\<close>

lemma digitChar_0: "digitChar 0 = CHR ''0''"
  by (simp add: digitChar_def)

lemma digitChar_digit: "n < 10 \<Longrightarrow> digitChar n \<in> set ''0123456789''"
  unfolding digitChar_def by (rule nth_mem) simp

lemma toStringNat_digits: "set (toStringNat n) \<subseteq> set ''0123456789''"
proof (induction n rule: toStringNat.induct)
  case (1 n)
  show ?case
  proof (cases "n < 10")
    case True
    then show ?thesis
      using digitChar_digit [of n] by (subst toStringNat.simps) simp
  next
    case False
    have "n mod 10 < 10" by simp
    with False "1.IH" digitChar_digit [of "n mod 10"] show ?thesis
      by (subst toStringNat.simps) simp
  qed
qed

lemma toStringNat_small: "n < 10 \<Longrightarrow> toStringNat n = [digitChar n]"
  by (subst toStringNat.simps) simp

lemma toStringNat_big: "10 \<le> n \<Longrightarrow> toStringNat n = toStringNat (n div 10) @ [digitChar (n mod 10)]"
  by (subst toStringNat.simps) simp

lemma toStringNat_hd_zero: "hd (toStringNat n) = CHR ''0'' \<Longrightarrow> n = 0"
proof (induction n rule: toStringNat.induct)
  case (1 n)
  show ?case
  proof (cases "n < 10")
    case True
    with "1.prems" have "digitChar n = digitChar 0"
      by (simp add: toStringNat_small digitChar_0)
    with True show ?thesis
      by (intro digitChar_inj) simp_all
  next
    case False
    then have "hd (toStringNat n) = hd (toStringNat (n div 10))"
      by (simp add: toStringNat_big toStringNat_nonempty)
    with "1.IH" [OF False] "1.prems" have "n div 10 = 0"
      by simp
    with False show ?thesis
      by simp
  qed
qed

lemma padStart_inj:
  assumes "padStart k CHR ''0'' (toStringNat a) = padStart k CHR ''0'' (toStringNat b)"
  shows "a = b"
proof -
  have one_way: "a = b"
    if eq: "replicate i CHR ''0'' @ toStringNat a = replicate j CHR ''0'' @ toStringNat b"
      and le: "i \<le> j" for i j a b
  proof (cases "i = j")
    case True
    with eq show ?thesis
      by (simp add: toStringNat_inj)
  next
    case False
    with le have "i < j" by simp
    then obtain d where j: "j = Suc (i + d)"
      using less_iff_Suc_add by blast
    have "replicate j CHR ''0'' = replicate i CHR ''0'' @ CHR ''0'' # replicate d CHR ''0''"
      unfolding j by (simp add: replicate_add [symmetric] replicate_app_Cons_same)
    with eq have a: "toStringNat a = CHR ''0'' # replicate d CHR ''0'' @ toStringNat b"
      by simp
    then have "hd (toStringNat a) = CHR ''0''"
      by simp
    then have "a = 0"
      by (rule toStringNat_hd_zero)
    then have "length (toStringNat a) = 1"
      by (simp add: toStringNat_small)
    moreover from a have "length (toStringNat a) = Suc (d + length (toStringNat b))"
      by simp
    ultimately show ?thesis
      using toStringNat_nonempty [of b] by simp
  qed
  define i where "i = k - length (toStringNat a)"
  define j where "j = k - length (toStringNat b)"
  from assms have eq: "replicate i CHR ''0'' @ toStringNat a = replicate j CHR ''0'' @ toStringNat b"
    by (simp add: padStart_def i_def j_def)
  show ?thesis
  proof (cases "i \<le> j")
    case True
    from eq True show ?thesis by (rule one_way)
  next
    case False
    then have "j \<le> i" by simp
    with eq [symmetric] have "b = a" by (rule one_way)
    then show ?thesis by simp
  qed
qed

lemma padStart_digits: "set (padStart k CHR ''0'' (toStringNat n)) \<subseteq> set ''0123456789''"
  using toStringNat_digits [of n] by (auto simp: padStart_def)

lemma padStart_nonempty: "padStart k c (toStringNat n) \<noteq> []"
  by (simp add: padStart_def toStringNat_nonempty)

lemma pad2_eq:
  assumes "0 \<le> n" "n < 100"
  shows "pad2 n = [digitChar (nat n div 10), digitChar (nat n mod 10)]"
proof (cases "nat n < 10")
  case True
  then show ?thesis
    by (simp add: pad2_def padStart_def toStringNat_small digitChar_0)
next
  case False
  with assms have "nat n div 10 < 10"
    by simp
  with False show ?thesis
    by (simp add: pad2_def padStart_def toStringNat_big toStringNat_small)
qed

lemma pad2_length: "0 \<le> n \<Longrightarrow> n < 100 \<Longrightarrow> length (pad2 n) = 2"
  by (simp add: pad2_eq)

lemma pad2_inj: "pad2 a = pad2 b \<Longrightarrow> 0 \<le> a \<Longrightarrow> 0 \<le> b \<Longrightarrow> a = b"
  using padStart_inj [of 2 "nat a" "nat b"] by (simp add: pad2_def)

lemma pad2_digits: "set (pad2 n) \<subseteq> set ''0123456789''"
  unfolding pad2_def by (rule padStart_digits)

lemma toStringInt_inj:
  assumes "toStringInt a = toStringInt b"
  shows "a = b"
proof -
  have no_minus: "CHR ''-'' # s \<noteq> toStringNat n" for s n
    using toStringNat_digits [of n] by (cases "toStringNat n") auto
  show ?thesis
  proof (cases "a < 0"; cases "b < 0")
    assume "a < 0" "b < 0"
    with assms have "nat (- a) = nat (- b)"
      by (simp add: toStringInt_def toStringNat_inj)
    with \<open>a < 0\<close> \<open>b < 0\<close> show ?thesis by simp
  next
    assume "a < 0" "\<not> b < 0"
    with assms no_minus show ?thesis
      by (simp add: toStringInt_def)
  next
    assume "\<not> a < 0" "b < 0"
    with assms no_minus [of "toStringNat (nat (- b))" "nat a"] show ?thesis
      by (simp add: toStringInt_def)
  next
    assume "\<not> a < 0" "\<not> b < 0"
    with assms have "nat a = nat b"
      by (simp add: toStringInt_def toStringNat_inj)
    with \<open>\<not> a < 0\<close> \<open>\<not> b < 0\<close> show ?thesis by simp
  qed
qed

lemma monthKey_eq_iff:
  "monthKey h t = monthKey h u \<longleftrightarrow> monthIndex h t = monthIndex h u"
proof
  assume eq: "monthKey h t = monthKey h u"
  have len: "length (pad2 (getMonth h t + 1)) = length (pad2 (getMonth h u + 1))"
    using MonthFromTime_range [of "LocalTime h t"] MonthFromTime_range [of "LocalTime h u"]
    by (simp add: pad2_length getMonth_def)
  from eq have "toStringInt (getFullYear h t) = toStringInt (getFullYear h u)
      \<and> pad2 (getMonth h t + 1) = pad2 (getMonth h u + 1)"
    unfolding monthKey_def using len by simp
  then have "getFullYear h t = getFullYear h u" "getMonth h t + 1 = getMonth h u + 1"
    using MonthFromTime_range(1) [of "LocalTime h t"] MonthFromTime_range(1) [of "LocalTime h u"]
    by (auto dest: toStringInt_inj pad2_inj simp: getMonth_def)
  then show "monthIndex h t = monthIndex h u"
    by (simp add: monthIndex_def)
next
  assume eq: "monthIndex h t = monthIndex h u"
  have "getMonth h t = monthIndex h t mod 12" "getFullYear h t = monthIndex h t div 12" for t
    using MonthFromTime_range [of "LocalTime h t"]
    by (simp_all add: monthIndex_def getMonth_def)
  with eq have "getMonth h t = getMonth h u" "getFullYear h t = getFullYear h u"
    by simp_all
  then show "monthKey h t = monthKey h u"
    by (simp add: monthKey_def)
qed

lemma sign_not_padded:
  "CHR ''-'' # s \<noteq> padStart k CHR ''0'' (toStringNat n)"
  "CHR ''+'' # s \<noteq> padStart k CHR ''0'' (toStringNat n)"
proof -
  have "c # s \<noteq> padStart k CHR ''0'' (toStringNat n)" if "c \<notin> set ''0123456789''" for c
  proof
    assume "c # s = padStart k CHR ''0'' (toStringNat n)"
    then have "set (c # s) \<subseteq> set ''0123456789''"
      using padStart_digits [of k n] by simp
    then have "c \<in> set ''0123456789''"
      by simp
    with that show False ..
  qed
  then show "CHR ''-'' # s \<noteq> padStart k CHR ''0'' (toStringNat n)"
    "CHR ''+'' # s \<noteq> padStart k CHR ''0'' (toStringNat n)"
    by simp_all
qed

lemma isoYear_plain: "0 \<le> y \<Longrightarrow> y \<le> 9999 \<Longrightarrow> isoYear y = padStart 4 CHR ''0'' (toStringNat (nat y))"
  by (simp add: isoYear_def)

lemma isoYear_minus: "y < 0 \<Longrightarrow> isoYear y = CHR ''-'' # padStart 6 CHR ''0'' (toStringNat (nat \<bar>y\<bar>))"
  by (simp add: isoYear_def)

lemma isoYear_plus: "9999 < y \<Longrightarrow> isoYear y = CHR ''+'' # padStart 6 CHR ''0'' (toStringNat (nat \<bar>y\<bar>))"
  by (simp add: isoYear_def)

lemma isoYear_inj:
  assumes "isoYear a = isoYear b"
  shows "a = b"
proof -
  consider "a < 0" | "0 \<le> a" "a \<le> 9999" | "9999 < a" by linarith
  then show ?thesis
  proof cases
    case 1
    consider "b < 0" | "0 \<le> b" "b \<le> 9999" | "9999 < b" by linarith
    then show ?thesis
    proof cases
      case b: 1
      from assms have "padStart 6 CHR ''0'' (toStringNat (nat \<bar>a\<bar>))
                     = padStart 6 CHR ''0'' (toStringNat (nat \<bar>b\<bar>))"
        unfolding isoYear_minus [OF 1] isoYear_minus [OF b] by simp
      then have "nat \<bar>a\<bar> = nat \<bar>b\<bar>" by (rule padStart_inj)
      with 1 b show ?thesis by simp
    next
      case b: 2
      from assms sign_not_padded(1) show ?thesis
        unfolding isoYear_minus [OF 1] isoYear_plain [OF b] by blast
    next
      case b: 3
      from assms show ?thesis
        unfolding isoYear_minus [OF 1] isoYear_plus [OF b] by simp
    qed
  next
    case 2
    consider "b < 0" | "0 \<le> b" "b \<le> 9999" | "9999 < b" by linarith
    then show ?thesis
    proof cases
      case b: 1
      from assms [symmetric] sign_not_padded(1) show ?thesis
        unfolding isoYear_minus [OF b] isoYear_plain [OF 2] by blast
    next
      case b: 2
      from assms have "nat a = nat b"
        unfolding isoYear_plain [OF 2] isoYear_plain [OF b] by (rule padStart_inj)
      with 2 b show ?thesis by simp
    next
      case b: 3
      from assms [symmetric] sign_not_padded(2) show ?thesis
        unfolding isoYear_plus [OF b] isoYear_plain [OF 2] by blast
    qed
  next
    case 3
    consider "b < 0" | "0 \<le> b" "b \<le> 9999" | "9999 < b" by linarith
    then show ?thesis
    proof cases
      case b: 1
      from assms show ?thesis
        unfolding isoYear_plus [OF 3] isoYear_minus [OF b] by simp
    next
      case b: 2
      from assms sign_not_padded(2) show ?thesis
        unfolding isoYear_plus [OF 3] isoYear_plain [OF b] by blast
    next
      case b: 3
      from assms have "padStart 6 CHR ''0'' (toStringNat (nat \<bar>a\<bar>))
                     = padStart 6 CHR ''0'' (toStringNat (nat \<bar>b\<bar>))"
        unfolding isoYear_plus [OF 3] isoYear_plus [OF b] by simp
      then have "nat \<bar>a\<bar> = nat \<bar>b\<bar>" by (rule padStart_inj)
      with 3 b show ?thesis by simp
    qed
  qed
qed

lemma isoYear_chars: "CHR ''T'' \<notin> set (isoYear y)"
  using padStart_digits [of 4 "nat y"] padStart_digits [of 6 "nat \<bar>y\<bar>"]
  by (auto simp: isoYear_def)

lemma pad2_chars: "CHR ''T'' \<notin> set (pad2 n)"
  using pad2_digits [of n] by auto

lemma dayKey_eq:
  "dayKey t = isoYear (YearFromTime t) @ ''-'' @ pad2 (MonthFromTime t + 1) @ ''-''
                @ pad2 (DateFromTime t)"
proof -
  define front where "front = isoYear (YearFromTime t) @ ''-'' @ pad2 (MonthFromTime t + 1) @ ''-''
                @ pad2 (DateFromTime t)"
  define rest where "rest = pad2 (TimeWithinDay t div 3600000) @ '':''
       @ pad2 (TimeWithinDay t div 60000 mod 60) @ '':'' @ pad2 (TimeWithinDay t div 1000 mod 60)
       @ ''.'' @ padStart 3 CHR ''0'' (toStringNat (nat (TimeWithinDay t mod 1000))) @ ''Z''"
  have tw: "takeWhile (\<lambda>c. c \<noteq> CHR ''T'') (xs @ CHR ''T'' # ys) = xs" if "CHR ''T'' \<notin> set xs" for xs ys
    using that by (induction xs) auto
  have "CHR ''T'' \<notin> set front"
    by (simp add: front_def isoYear_chars pad2_chars)
  moreover have "toISOString t = front @ CHR ''T'' # rest"
    by (simp add: toISOString_def front_def rest_def)
  ultimately have "dayKey t = front"
    by (simp add: dayKey_def splitT0_def tw)
  then show ?thesis
    by (simp add: front_def)
qed

lemma fields_from_Day:
  assumes "Day t = Day u"
  shows "YearFromTime t = YearFromTime u" "MonthFromTime t = MonthFromTime u"
    "DateFromTime t = DateFromTime u"
proof -
  show y: "YearFromTime t = YearFromTime u"
    using assms by (simp add: YearFromTime_def)
  then have l: "InLeapYear t = InLeapYear u" and d: "DayWithinYear t = DayWithinYear u"
    using assms by (simp_all add: InLeapYear_def DayWithinYear_def)
  then show m: "MonthFromTime t = MonthFromTime u"
    by (simp add: MonthFromTime_def)
  with l d show "DateFromTime t = DateFromTime u"
    by (simp add: DateFromTime_def)
qed

lemma dayKey_eq_iff: "dayKey t = dayKey u \<longleftrightarrow> Day t = Day u"
proof
  assume eq: "dayKey t = dayKey u"
  have m: "0 \<le> MonthFromTime x + 1" "MonthFromTime x + 1 < 100" for x
    using MonthFromTime_range [of x] by simp_all
  have d: "0 \<le> DateFromTime x" "DateFromTime x < 100" for x
    using DateFromTime_range [of x] by simp_all
  define st where "st = ''-'' @ pad2 (MonthFromTime t + 1) @ ''-'' @ pad2 (DateFromTime t)"
  define su where "su = ''-'' @ pad2 (MonthFromTime u + 1) @ ''-'' @ pad2 (DateFromTime u)"
  have len: "length st = length su"
    by (simp add: st_def su_def pad2_length m d)
  from eq have "isoYear (YearFromTime t) @ st = isoYear (YearFromTime u) @ su"
    by (simp add: dayKey_eq st_def su_def)
  with len have y: "isoYear (YearFromTime t) = isoYear (YearFromTime u)" and "st = su"
    by simp_all
  then have rest: "pad2 (MonthFromTime t + 1) @ (''-'' @ pad2 (DateFromTime t))
             = pad2 (MonthFromTime u + 1) @ (''-'' @ pad2 (DateFromTime u))"
    by (simp add: st_def su_def)
  have "length (pad2 (MonthFromTime t + 1)) = length (pad2 (MonthFromTime u + 1))"
    by (simp add: pad2_length m)
  with rest have "pad2 (MonthFromTime t + 1) = pad2 (MonthFromTime u + 1)"
    and "pad2 (DateFromTime t) = pad2 (DateFromTime u)"
    by simp_all
  then have md: "MonthFromTime t = MonthFromTime u" "DateFromTime t = DateFromTime u"
    using pad2_inj [of "MonthFromTime t + 1" "MonthFromTime u + 1"]
      pad2_inj [of "DateFromTime t" "DateFromTime u"] m(1) d(1) by simp_all
  from y have yy: "YearFromTime t = YearFromTime u"
    by (rule isoYear_inj)
  then have ll: "InLeapYear t = InLeapYear u"
    by (simp only: InLeapYear_def)
  have "Day t = DayFromYear (YearFromTime t) + monthStart (MonthFromTime t) (InLeapYear t)
                  + DateFromTime t - 1"
    by (rule Day_decompose [symmetric])
  also have "\<dots> = DayFromYear (YearFromTime u) + monthStart (MonthFromTime u) (InLeapYear u)
                  + DateFromTime u - 1"
    by (simp only: md yy ll)
  also have "\<dots> = Day u"
    by (rule Day_decompose)
  finally show "Day t = Day u" .
next
  assume "Day t = Day u"
  from fields_from_Day [OF this] show "dayKey t = dayKey u"
    by (simp only: dayKey_eq)
qed

section \<open>Properties of the chart\<close>

lemma timelineLoop_unfold:
  "timelineLoop h monthly endTarget current loops dataMap =
     (if loopCond h monthly endTarget current then
        (if loops > 1000 then dataMap
         else timelineLoop h monthly endTarget (nextCurrent h monthly current) (loops + 1)
                (mapSet (bucketKey h monthly current) (emptyBucket h monthly current) dataMap))
      else dataMap)"
  by (subst timelineLoop.simps)
     (simp add: loopCond_def nextCurrent_def bucketKey_def emptyBucket_def Let_def)

lemma mapSet_new: "k \<notin> fst ` set m \<Longrightarrow> mapSet k v m = m @ [(k, v)]"
  by (simp add: mapSet_def)

lemma set_mapSet: "(k', v') \<in> set (mapSet k v m) \<Longrightarrow> (k', v') \<in> set m \<or> (k', v') = (k, v)"
  by (auto simp: mapSet_def split: if_splits)

text \<open>What holds of every bucket the loop creates holds of every bucket of its result.\<close>

lemma timelineLoop_invariant:
  assumes new: "\<And>t. Q (bucketKey h monthly t) (emptyBucket h monthly t)"
    and old: "\<forall>(k, b) \<in> set dataMap. Q k b"
  shows "\<forall>(k, b) \<in> set (timelineLoop h monthly endTarget current loops dataMap). Q k b"
  using old
proof (induction n \<equiv> "1001 - loops" arbitrary: current loops dataMap)
  case 0
  then have "loops > 1000" by simp
  with "0.prems" show ?case
    by (subst timelineLoop_unfold) simp
next
  case (Suc n)
  show ?case
  proof (cases "loopCond h monthly endTarget current \<and> \<not> loops > 1000")
    case False
    with Suc.prems show ?thesis
      by (subst timelineLoop_unfold) auto
  next
    case True
    have "\<forall>(k, b) \<in> set (mapSet (bucketKey h monthly current) (emptyBucket h monthly current) dataMap). Q k b"
      using Suc.prems new by (auto dest!: set_mapSet)
    moreover have "n = 1001 - (loops + 1)"
      using Suc.hyps(2) by simp
    ultimately have "\<forall>(k, b) \<in> set (timelineLoop h monthly endTarget (nextCurrent h monthly current)
                (loops + 1)
                (mapSet (bucketKey h monthly current) (emptyBucket h monthly current) dataMap)). Q k b"
      by (intro Suc.hyps(1))
    with True show ?thesis
      by (subst timelineLoop_unfold) simp
  qed
qed

text \<open>
  The loop along a sequence of time values: when each value of the sequence up to \<open>N\<close>
  satisfies the condition and steps to the next, the keys of these values differ, and the
  loop stops at \<open>N\<close> (the condition fails there, or \<open>N\<close> is 1001), the map holds the
  buckets of the first \<open>N\<close> values, in order.
\<close>

lemma timelineLoop_sequence:
  fixes c :: "nat \<Rightarrow> int"
  assumes cond: "\<And>k. k < N \<Longrightarrow> loopCond h monthly endTarget (c k)"
    and step: "\<And>k. k < N \<Longrightarrow> nextCurrent h monthly (c k) = c (Suc k)"
    and keys: "inj_on (\<lambda>k. bucketKey h monthly (c k)) {..<N}"
    and stop: "N = 1001 \<or> (N < 1001 \<and> \<not> loopCond h monthly endTarget (c N))"
    and k: "k \<le> N"
  shows "timelineLoop h monthly endTarget (c k) k
           (map (\<lambda>j. (bucketKey h monthly (c j), emptyBucket h monthly (c j))) [0..<k])
         = map (\<lambda>j. (bucketKey h monthly (c j), emptyBucket h monthly (c j))) [0..<N]"
  using k
proof (induction n \<equiv> "N - k" arbitrary: k)
  case 0
  then have "k = N" by simp
  with stop show ?case
    by (subst timelineLoop_unfold) auto
next
  case (Suc n)
  then have lt: "k < N" by simp
  with stop have "\<not> k > 1000" by auto
  let ?E = "\<lambda>j. (bucketKey h monthly (c j), emptyBucket h monthly (c j))"
  have "bucketKey h monthly (c k) \<notin> fst ` set (map ?E [0..<k])"
  proof
    assume "bucketKey h monthly (c k) \<in> fst ` set (map ?E [0..<k])"
    then obtain j where "j < k" "bucketKey h monthly (c j) = bucketKey h monthly (c k)"
      by auto
    with keys lt show False
      by (auto simp: inj_on_def)
  qed
  then have set: "mapSet (bucketKey h monthly (c k)) (emptyBucket h monthly (c k)) (map ?E [0..<k])
                   = map ?E [0..<Suc k]"
    by (simp add: mapSet_new)
  have "timelineLoop h monthly endTarget (c (Suc k)) (Suc k) (map ?E [0..<Suc k]) = map ?E [0..<N]"
    using Suc.hyps(2) lt by (intro Suc.hyps(1)) simp_all
  then show ?case
    using cond [OF lt] \<open>\<not> k > 1000\<close>
    by (subst timelineLoop_unfold) (simp add: step [OF lt] set del: upt_Suc)
qed

lemma timelineLoop_daily:
  assumes "dE - dS \<le> 1000" and co: "constantOffset h tza"
  shows "timelineLoop h False (dE * msPerDay) (dS * msPerDay) 0 []
         = map (\<lambda>j. (bucketKey h False ((dS + int j) * msPerDay),
                      emptyBucket h False ((dS + int j) * msPerDay))) [0..<nat (dE - dS + 1)]"
proof -
  define c where "c k = (dS + int k) * msPerDay" for k :: nat
  define N where "N = nat (dE - dS + 1)"
  have le: "c k \<le> dE * msPerDay \<longleftrightarrow> dS + int k \<le> dE" for k
    using msPerDay_pos by (simp add: c_def)
  have cond: "loopCond h False (dE * msPerDay) (c k)" if "k < N" for k
    using that by (simp add: loopCond_def le N_def)
  have step: "nextCurrent h False (c k) = c (Suc k)" for k
  proof -
    have "nextCurrent h False (c k) = c k + msPerDay"
      by (simp add: nextCurrent_def setDate_next_day [OF co])
    then show ?thesis
      by (simp add: c_def algebra_simps)
  qed
  have day: "Day (c k) = dS + int k" for k
    using msPerDay_pos by (simp add: c_def Day_def)
  have keys: "inj_on (\<lambda>k. bucketKey h False (c k)) {..<N}"
    by (rule inj_onI) (simp add: bucketKey_def dayKey_eq_iff day)
  have stop: "N = 1001 \<or> (N < 1001 \<and> \<not> loopCond h False (dE * msPerDay) (c N))"
    using assms(1) by (auto simp add: loopCond_def le N_def)
  from timelineLoop_sequence [of N h False "dE * msPerDay" c 0, OF cond step keys stop]
  show ?thesis
    by (simp add: c_def N_def)
qed

lemma timelineLoop_monthly:
  assumes tod: "0 \<le> tod" "tod < msPerDay" and co: "constantOffset h tza"
  shows "timelineLoop h True (monthTime h iE tod) (monthTime h i0 tod) 0 []
         = map (\<lambda>j. (bucketKey h True (monthTime h (i0 + int j) tod),
                      emptyBucket h True (monthTime h (i0 + int j) tod)))
             [0..<min (nat (iE - i0 + 1)) 1001]"
proof -
  define c where "c k = monthTime h (i0 + int k) tod" for k :: nat
  define N where "N = min (nat (iE - i0 + 1)) 1001"
  have cond_iff: "loopCond h True (monthTime h iE tod) (c k) \<longleftrightarrow> i0 + int k \<le> iE" for k
  proof -
    have "i0 + int k = iE"
      if "getMonth h (c k) = getMonth h (monthTime h iE tod)"
        and "getFullYear h (c k) = getFullYear h (monthTime h iE tod)"
    proof -
      from that have "(i0 + int k) mod 12 = iE mod 12" "(i0 + int k) div 12 = iE div 12"
        by (simp_all add: c_def monthTime_fields [OF tod co])
      then show ?thesis
        by (metis mult_div_mod_eq)
    qed
    then show ?thesis
      unfolding loopCond_def by (auto simp add: c_def monthTime_le_iff [OF co])
  qed
  have cond: "loopCond h True (monthTime h iE tod) (c k)" if "k < N" for k
    using that unfolding cond_iff N_def by linarith
  have step: "nextCurrent h True (c k) = c (Suc k)" for k
  proof -
    have "nextCurrent h True (c k) = monthTime h (i0 + int k + 1) tod"
      unfolding nextCurrent_def c_def by (simp only: monthTime_fields(4) [OF tod co] if_True)
    then show ?thesis
      by (simp add: c_def algebra_simps)
  qed
  have keys: "inj_on (\<lambda>k. bucketKey h True (c k)) {..<N}"
    by (rule inj_onI)
       (simp add: bucketKey_def monthKey_eq_iff c_def monthTime_fields [OF tod co])
  have stop: "N = 1001 \<or> (N < 1001 \<and> \<not> loopCond h True (monthTime h iE tod) (c N))"
    unfolding cond_iff N_def by linarith
  from timelineLoop_sequence [of N h True "monthTime h iE tod" c 0, OF cond step keys stop]
  show ?thesis
    by (simp add: c_def N_def)
qed

lemma diffDays_midnights: "diffDays (dS * msPerDay) (dE * msPerDay) = \<bar>dE - dS\<bar>"
proof -
  have "\<bar>dE * msPerDay - dS * msPerDay\<bar> = \<bar>dE - dS\<bar> * msPerDay"
    using msPerDay_pos by (simp add: left_diff_distrib [symmetric] abs_mult)
  then have "diffDays (dS * msPerDay) (dE * msPerDay) = - ((- (\<bar>dE - dS\<bar> * msPerDay)) div msPerDay)"
    by (simp add: diffDays_def msPerDay_def)
  also have "\<dots> = \<bar>dE - dS\<bar>"
    using msPerDay_pos by (simp flip: mult_minus_left)
  finally show ?thesis .
qed

lemma bump_frame: "key (bump ty b) = key b" "label (bump ty b) = label b"
  "timestamp (bump ty b) = timestamp b"
  by (cases ty; simp add: bump_def)+

lemma processItem_frame:
  "map (\<lambda>(k, b). (k, key b, label b, timestamp b)) (processItem h monthly s ty m)
     = map (\<lambda>(k, b). (k, key b, label b, timestamp b)) m"
  by (auto simp add: processItem_def Let_def bump_frame split: option.splits)

lemma fold_processItem_frame:
  "map (\<lambda>(k, b). (k, key b, label b, timestamp b))
       (fold (\<lambda>x. processItem h monthly (g x) ty) xs m)
     = map (\<lambda>(k, b). (k, key b, label b, timestamp b)) m"
  by (induction xs arbitrary: m) (simp_all add: processItem_frame)

lemma frame_length:
  assumes "map (\<lambda>(k, b). (k, key b, label b, timestamp b)) m'
         = map (\<lambda>(k, b). (k, key b, label b, timestamp b)) (m :: dataMap)"
  shows "length m' = length m"
  using arg_cong [OF assms, of length] by simp

lemma frame_pointwise:
  assumes "map (\<lambda>(k, b). (k, key b, label b, timestamp b)) m'
         = map (\<lambda>(k, b). (k, key b, label b, timestamp b)) (m :: dataMap)"
    and "(k', b') \<in> set m'"
  shows "\<exists>b. (k', b) \<in> set m \<and> key b = key b' \<and> label b = label b' \<and> timestamp b = timestamp b'"
proof -
  from assms(2) have "(k', key b', label b', timestamp b')
      \<in> set (map (\<lambda>(k, b). (k, key b, label b, timestamp b)) m')"
    by force
  then have "(k', key b', label b', timestamp b')
      \<in> set (map (\<lambda>(k, b). (k, key b, label b, timestamp b)) m)"
    by (simp only: assms(1))
  then show ?thesis
    by auto
qed

lemma chartData_valid:
  assumes "Date_parse h startDate = Some start" "Date_parse h endDate = Some end'"
  shows "chartData h prs commits startDate endDate
         = sort_key timestamp (map snd (filledMap h prs commits (diffDays start end' > 60) start end'))"
  using assms by (simp add: chartData_def isMonthly_def filledMap_def Let_def)


lemma filledMap_frame:
  "map (\<lambda>(k, b). (k, key b, label b, timestamp b)) (filledMap h prs commits monthly start end')
     = map (\<lambda>(k, b). (k, key b, label b, timestamp b))
         (timelineLoop h monthly
             (if monthly then setDate h end' 1 else end')
             (if monthly then setDate h start 1 else start) 0 [])"
  unfolding filledMap_def by (simp only: fold_processItem_frame)


lemma chartData_keys:
  assumes "Date_parse h startDate = Some start" "Date_parse h endDate = Some end'"
    and "b \<in> set (chartData h prs commits startDate endDate)"
  shows "key b = bucketKey h (diffDays start end' > 60) (timestamp b)"
proof -
  define monthly where "monthly = (diffDays start end' > 60)"
  from assms obtain k where "(k, b) \<in> set (filledMap h prs commits monthly start end')"
    by (auto simp add: chartData_valid monthly_def)
  from frame_pointwise [OF filledMap_frame this]
  obtain b0 where b0: "(k, b0) \<in> set (timelineLoop h monthly
             (if monthly then setDate h end' 1 else end')
             (if monthly then setDate h start 1 else start) 0 [])"
    and same: "key b0 = key b" "timestamp b0 = timestamp b"
    by blast
  have "\<forall>(k, b) \<in> set (timelineLoop h monthly
             (if monthly then setDate h end' 1 else end')
             (if monthly then setDate h start 1 else start) 0 []).
          key b = bucketKey h monthly (timestamp b)"
    by (rule timelineLoop_invariant) (simp_all add: emptyBucket_def)
  with b0 have "key b0 = bucketKey h monthly (timestamp b0)"
    by blast
  with same show ?thesis
    by (simp add: monthly_def)
qed


text \<open>
  The output when the loop runs along a sequence of non-decreasing time values: the
  buckets of these values in order, whatever the pull requests and commits are.
\<close>

lemma chartData_of_loop:
  assumes p: "Date_parse h startDate = Some start" "Date_parse h endDate = Some end'"
    and monthly: "monthly = (diffDays start end' > 60)"
    and loop: "timelineLoop h monthly (if monthly then setDate h end' 1 else end')
                 (if monthly then setDate h start 1 else start) 0 []
               = map (\<lambda>j. (bucketKey h monthly (c j), emptyBucket h monthly (c j))) [0..<N]"
    and mono: "\<And>i j. i \<le> j \<Longrightarrow> c i \<le> (c j :: int)"
  shows "map key (chartData h prs commits startDate endDate)
           = map (\<lambda>j. bucketKey h monthly (c j)) [0..<N]"
    and "map timestamp (chartData h prs commits startDate endDate) = map c [0..<N]"
proof -
  define fm where "fm = filledMap h prs commits monthly start end'"
  let ?F = "\<lambda>(k :: string, b). (k, key b, label b, timestamp b)"
  have frame: "map ?F fm = map ?F (map (\<lambda>j. (bucketKey h monthly (c j), emptyBucket h monthly (c j))) [0..<N])"
    unfolding fm_def filledMap_frame loop ..
  have "map (\<lambda>(k :: string, kb :: string, l :: string, t :: int). t) (map ?F fm)
      = map (\<lambda>(k :: string, kb :: string, l :: string, t :: int). t)
          (map ?F (map (\<lambda>j. (bucketKey h monthly (c j), emptyBucket h monthly (c j))) [0..<N]))"
    by (simp only: frame)
  then have ts: "map timestamp (map snd fm) = map c [0..<N]"
    by (simp add: comp_def case_prod_beta emptyBucket_def)
  have "map (\<lambda>(k :: string, kb :: string, l :: string, t :: int). kb) (map ?F fm)
      = map (\<lambda>(k :: string, kb :: string, l :: string, t :: int). kb)
          (map ?F (map (\<lambda>j. (bucketKey h monthly (c j), emptyBucket h monthly (c j))) [0..<N]))"
    by (simp only: frame)
  then have ks: "map key (map snd fm) = map (\<lambda>j. bucketKey h monthly (c j)) [0..<N]"
    by (simp add: comp_def case_prod_beta emptyBucket_def)
  have "sorted (map c [0..<N])"
    by (auto simp add: sorted_iff_nth_mono intro: mono)
  then have "sorted (map timestamp (map snd fm))"
    by (simp only: ts)
  then have "sort_key timestamp (map snd fm) = map snd fm"
    by (rule sort_key_id_if_sorted)
  then have out: "chartData h prs commits startDate endDate = map snd fm"
    by (simp add: chartData_valid [OF p] fm_def monthly)
  show "map key (chartData h prs commits startDate endDate)
           = map (\<lambda>j. bucketKey h monthly (c j)) [0..<N]"
    unfolding out by (rule ks)
  show "map timestamp (chartData h prs commits startDate endDate) = map c [0..<N]"
    unfolding out by (rule ts)
qed

lemma chartData_daily:
  assumes p: "Date_parse h startDate = Some (dS * msPerDay)"
      "Date_parse h endDate = Some (dE * msPerDay)"
    and near: "\<bar>dE - dS\<bar> \<le> 60"
    and co: "constantOffset h tza"
  shows "map key (chartData h prs commits startDate endDate)
           = map (\<lambda>j. dayKey ((dS + int j) * msPerDay)) [0..<daysSpanned dS dE]"
    and "map timestamp (chartData h prs commits startDate endDate)
           = map (\<lambda>j. (dS + int j) * msPerDay) [0..<daysSpanned dS dE]"
proof -
  have monthly: "False = (diffDays (dS * msPerDay) (dE * msPerDay) > 60)"
    using near by (simp add: diffDays_midnights)
  have "dE - dS \<le> 1000"
    using near by linarith
  from timelineLoop_daily [OF this co]
  have loop: "timelineLoop h False (if False then setDate h (dE * msPerDay) 1 else dE * msPerDay)
                 (if False then setDate h (dS * msPerDay) 1 else dS * msPerDay) 0 []
               = map (\<lambda>j. (bucketKey h False ((dS + int j) * msPerDay),
                            emptyBucket h False ((dS + int j) * msPerDay))) [0..<daysSpanned dS dE]"
    by (simp add: daysSpanned_def)
  have mono: "(dS + int i) * msPerDay \<le> (dS + int j) * msPerDay" if "i \<le> j" for i j
    using that msPerDay_pos by simp
  from chartData_of_loop [OF p monthly loop mono, of prs commits]
  show "map key (chartData h prs commits startDate endDate)
           = map (\<lambda>j. dayKey ((dS + int j) * msPerDay)) [0..<daysSpanned dS dE]"
    and "map timestamp (chartData h prs commits startDate endDate)
           = map (\<lambda>j. (dS + int j) * msPerDay) [0..<daysSpanned dS dE]"
    by (simp_all add: bucketKey_def)
qed

lemma Day_midnight: "Day (d * msPerDay) = d"
  using msPerDay_pos by (simp add: Day_def)

lemma monthIndex_local:
  assumes co: "constantOffset h tza"
  shows "monthIndex h (d * msPerDay) = calendarMonth (localDay tza d * msPerDay)"
proof -
  have "Day (LocalTime h (d * msPerDay)) = d + tza div msPerDay"
    using msPerDay_pos div_mult_self2 [of msPerDay tza d]
    by (simp add: constantOffset_time [OF co] Day_def algebra_simps)
  then have "Day (LocalTime h (d * msPerDay)) = Day (localDay tza d * msPerDay)"
    by (simp add: localDay_def Day_midnight)
  from fields_from_Day [OF this] show ?thesis
    by (simp add: monthIndex_def calendarMonth_def getFullYear_def getMonth_def)
qed


lemma monthKey_monthTime:
  assumes tod: "0 \<le> tod" "tod < msPerDay" and co: "constantOffset h tza"
  shows "monthKey h (monthTime h i tod) = monthKeyOfIndex i"
  by (simp add: monthKey_def monthKeyOfIndex_def monthTime_fields [OF tod co])

lemma chartData_monthly:
  assumes p: "Date_parse h startDate = Some (dS * msPerDay)"
      "Date_parse h endDate = Some (dE * msPerDay)"
    and far: "\<bar>dE - dS\<bar> > 60"
    and co: "constantOffset h tza"
  shows "map key (chartData h prs commits startDate endDate)
           = map (\<lambda>j. monthKeyOfIndex (calendarMonth (localDay tza dS * msPerDay) + int j))
               [0..<min (monthsSpanned (localDay tza dS) (localDay tza dE)) 1001]"
proof -
  have monthly: "True = (diffDays (dS * msPerDay) (dE * msPerDay) > 60)"
    using far by (simp add: diffDays_midnights)
  define tod where "tod = TimeWithinDay tza"
  have tod: "0 \<le> tod" "tod < msPerDay"
    by (simp_all add: tod_def TimeWithinDay_range)
  have tw: "TimeWithinDay (LocalTime h (d * msPerDay)) = tod" for d
    by (simp add: TimeWithinDay_def constantOffset_time [OF co] tod_def)
  have first: "setDate h (d * msPerDay) 1 = monthTime h (calendarMonth (localDay tza d * msPerDay)) tod" for d
    by (simp add: setDate_first tw monthIndex_local [OF co])
  define i0 where "i0 = calendarMonth (localDay tza dS * msPerDay)"
  define iE where "iE = calendarMonth (localDay tza dE * msPerDay)"
  have N: "min (nat (iE - i0 + 1)) 1001 = min (monthsSpanned (localDay tza dS) (localDay tza dE)) 1001"
    by (simp add: monthsSpanned_def i0_def iE_def)
  from timelineLoop_monthly [OF tod co, of iE i0]
  have loop: "timelineLoop h True (if True then setDate h (dE * msPerDay) 1 else dE * msPerDay)
                 (if True then setDate h (dS * msPerDay) 1 else dS * msPerDay) 0 []
               = map (\<lambda>j. (bucketKey h True (monthTime h (i0 + int j) tod),
                            emptyBucket h True (monthTime h (i0 + int j) tod)))
                   [0..<min (monthsSpanned (localDay tza dS) (localDay tza dE)) 1001]"
    by (simp add: first i0_def iE_def N [unfolded i0_def iE_def])
  have mono: "monthTime h (i0 + int i) tod \<le> monthTime h (i0 + int j) tod" if "i \<le> j" for i j
    using that by (simp add: monthTime_le_iff [OF co])
  from chartData_of_loop(1) [OF p monthly loop mono, of prs commits]
  show ?thesis
    by (simp add: bucketKey_def monthKey_monthTime [OF tod co] i0_def)
qed

lemma fields_of_civil_date:
  assumes day: "Day t = MakeDay y m d"
    and m: "0 \<le> m" "m \<le> 11"
    and d: "1 \<le> d" "d \<le> daysInMonth y m"
  shows "YearFromTime t = y" "MonthFromTime t = m" "DateFromTime t = d"
proof -
  define l :: int where "l = (if DaysInYear y = 366 then 1 else 0)"
  have l: "l = 0 \<or> l = 1"
    by (simp add: l_def)
  have days: "DaysInYear y = 365 + l"
    using DaysInYear_cases [of y] by (auto simp: l_def)
  have dm: "m div 12 = 0" "m mod 12 = m"
    using m by simp_all
  have day': "Day t = DayFromYear y + monthStart m l + d - 1"
    using day by (simp add: MakeDay_def Let_def dm l_def)
  have len: "d \<le> (if m = 11 then 31 else monthStart (m + 1) l - monthStart m l)"
    using d(2) unfolding daysInMonth_def Let_def l_def .
  have within: "0 \<le> monthStart m l + d - 1" "monthStart m l + d - 1 < 365 + l"
    using m by (rule month_cases; use l d(1) len in \<open>auto simp: monthStart_simps\<close>)+
  have year: "YearFromTime t = y"
    unfolding YearFromTime_def YearFromDay_iff day' DayFromYear_next days
    using within by simp
  then have leap: "InLeapYear t = l"
    by (simp add: InLeapYear_def l_def)
  have w: "DayWithinYear t = monthStart m l + d - 1"
    by (simp add: DayWithinYear_def year day')
  have month: "MonthFromTime t = m"
    unfolding MonthFromTime_def Let_def w leap
    using m by (rule month_cases; use l d(1) len in \<open>auto simp: monthStart_simps\<close>)
  show "YearFromTime t = y" by (rule year)
  show "MonthFromTime t = m" by (rule month)
  show "DateFromTime t = d"
    by (simp add: DateFromTime_def w leap month)
qed

lemma dayKey_civil_date:
  assumes "0 \<le> m" "m \<le> 11" "1 \<le> d" "d \<le> daysInMonth y m"
  shows "dayKey (MakeDay y m d * msPerDay) = isoYear y @ ''-'' @ pad2 (m + 1) @ ''-'' @ pad2 d"
proof -
  have "Day (MakeDay y m d * msPerDay) = MakeDay y m d"
    by (rule Day_midnight)
  from fields_of_civil_date [OF this assms] show ?thesis
    by (simp add: dayKey_eq)
qed

lemma length_mapSet: "length m \<le> length (mapSet k v m)" "mapSet k v m \<noteq> []"
  by (auto simp add: mapSet_def)

lemma timelineLoop_length:
  "length dataMap \<le> length (timelineLoop h monthly endTarget current loops dataMap)"
proof (induction n \<equiv> "1001 - loops" arbitrary: loops current dataMap)
  case 0
  then have "loops > 1000"
    by simp
  then show ?case
    by (subst timelineLoop_unfold) simp
next
  case (Suc n)
  then have n: "n = 1001 - (loops + 1)"
    by simp
  have "length dataMap
        \<le> length (mapSet (bucketKey h monthly current) (emptyBucket h monthly current) dataMap)"
    by (rule length_mapSet)
  also have "\<dots> \<le> length (timelineLoop h monthly endTarget (nextCurrent h monthly current) (loops + 1)
                (mapSet (bucketKey h monthly current) (emptyBucket h monthly current) dataMap))"
    by (rule Suc.hyps(1) [OF n])
  finally show ?case
    by (subst timelineLoop_unfold) simp
qed

text \<open>
  On every host, also one whose offset changes, a range of dates in daily mode whose end
  is not before its start gives at least the bucket of the start.
\<close>

lemma chartData_daily_nonempty:
  assumes p: "Date_parse h startDate = Some (dS * msPerDay)"
      "Date_parse h endDate = Some (dE * msPerDay)"
    and near: "\<bar>dE - dS\<bar> \<le> 60" and le: "dS \<le> dE"
  shows "chartData h prs commits startDate endDate \<noteq> []"
proof -
  have monthly: "\<not> diffDays (dS * msPerDay) (dE * msPerDay) > 60"
    using near by (simp add: diffDays_midnights)
  have cond: "loopCond h False (dE * msPerDay) (dS * msPerDay)"
    using le msPerDay_pos by (simp add: loopCond_def)
  have "1 \<le> length (mapSet (bucketKey h False (dS * msPerDay)) (emptyBucket h False (dS * msPerDay)) [])"
    by (simp add: mapSet_def)
  also have "\<dots> \<le> length (timelineLoop h False (dE * msPerDay) (nextCurrent h False (dS * msPerDay)) (0 + 1)
                (mapSet (bucketKey h False (dS * msPerDay)) (emptyBucket h False (dS * msPerDay)) []))"
    by (rule timelineLoop_length)
  also have "\<dots> = length (timelineLoop h False (dE * msPerDay) (dS * msPerDay) 0 [])"
    by (subst (2) timelineLoop_unfold) (simp add: cond)
  also have "\<dots> = length (filledMap h prs commits False (dS * msPerDay) (dE * msPerDay))"
    using frame_length [OF filledMap_frame [of h prs commits False "dS * msPerDay" "dE * msPerDay"]]
    by simp
  finally have "1 \<le> length (chartData h prs commits startDate endDate)"
    using monthly by (simp add: chartData_valid [OF p])
  then show ?thesis
    by auto
qed


lemma calendarMonth_first_day: "calendarMonth (MakeDay y m 1 * msPerDay) = 12 * y + m"
proof -
  have "Day (MakeDay y m 1 * msPerDay) = MakeDay y m 1"
    by (rule Day_midnight)
  from fields_of_first_day [OF this] show ?thesis
    by (simp add: calendarMonth_def)
qed

text \<open>The days of one month: their keys are the month's calendar dates.\<close>

lemma month_day_keys:
  assumes "0 \<le> m" "m \<le> 11" "int n \<le> daysInMonth y m"
  shows "map (\<lambda>j. dayKey ((MakeDay y m 1 + int j) * msPerDay)) [0..<n]
         = map (\<lambda>s. isoYear y @ ''-'' @ pad2 (m + 1) @ ''-'' @ s) (map (\<lambda>j. pad2 (1 + int j)) [0..<n])"
proof -
  have "dayKey ((MakeDay y m 1 + int j) * msPerDay)
        = isoYear y @ ''-'' @ pad2 (m + 1) @ ''-'' @ pad2 (1 + int j)" if "j < n" for j
  proof -
    have "MakeDay y m 1 + int j = MakeDay y m (1 + int j)"
      by (simp add: MakeDay_def Let_def)
    moreover have "1 + int j \<le> daysInMonth y m"
      using that assms(3) by simp
    ultimately show ?thesis
      using dayKey_civil_date [OF assms(1,2), of "1 + int j" y] by simp
  qed
  then show ?thesis
    by simp
qed

lemma map_upt_split: "map f [0..<a + b] = map f [0..<a] @ map (\<lambda>j. f (a + j)) [0..<b]"
  by (induction b) simp_all

subsection \<open>The examples\<close>

lemma example_days:
  "MakeDay 1900 0 1 = - 25567" "MakeDay 2000 0 1 = 10957" "MakeDay 2024 0 1 = 19723"
  "MakeDay 2024 1 1 = 19754" "MakeDay 2024 2 1 = 19783" "MakeDay 2024 2 2 = 19784"
  "MakeDay 2024 2 9 = 19791" "MakeDay 2024 2 11 = 19793" "MakeDay 2024 3 2 = 19815"
  by code_simp+

lemma example_parse:
  "Date_parse (hostAt tza) ''1900-01-01'' = Some (MakeDay 1900 0 1 * msPerDay)"
  "Date_parse (hostAt tza) ''2000-01-01'' = Some (MakeDay 2000 0 1 * msPerDay)"
  "Date_parse (hostAt tza) ''2024-01-01'' = Some (MakeDay 2024 0 1 * msPerDay)"
  "Date_parse (hostAt tza) ''2024-03-01'' = Some (MakeDay 2024 2 1 * msPerDay)"
  "Date_parse (hostAt tza) ''2024-03-02'' = Some (MakeDay 2024 2 2 * msPerDay)"
  "Date_parse (hostAt tza) ''2024-04-02'' = Some (MakeDay 2024 3 2 * msPerDay)"
  by (simp_all add: hostAt_def exampleParse_def)

lemma example_months:
  "calendarMonth (19784 * msPerDay) = 24290"
  "calendarMonth (19815 * msPerDay) = 24291"
  "calendarMonth (19722 * msPerDay) = 24287"
  "calendarMonth (19814 * msPerDay) = 24291"
  by code_simp+

lemma example_month_lengths:
  "daysInMonth 2024 0 = 31" "daysInMonth 2024 1 = 29" "daysInMonth 2024 2 = 31"
  by code_simp+

lemma example_pads:
  "map (\<lambda>j. pad2 (1 + int j)) [0..<31]
   = [''01'', ''02'', ''03'', ''04'', ''05'', ''06'', ''07'', ''08'', ''09'', ''10'',
      ''11'', ''12'', ''13'', ''14'', ''15'', ''16'', ''17'', ''18'', ''19'', ''20'',
      ''21'', ''22'', ''23'', ''24'', ''25'', ''26'', ''27'', ''28'', ''29'', ''30'',
      ''31'']"
  "map (\<lambda>j. pad2 (1 + int j)) [0..<29]
   = [''01'', ''02'', ''03'', ''04'', ''05'', ''06'', ''07'', ''08'', ''09'', ''10'',
      ''11'', ''12'', ''13'', ''14'', ''15'', ''16'', ''17'', ''18'', ''19'', ''20'',
      ''21'', ''22'', ''23'', ''24'', ''25'', ''26'', ''27'', ''28'', ''29'']"
  "map (\<lambda>j. pad2 (1 + int j)) [0..<1] = [''01'']"
  "isoYear 2024 = ''2024''" "pad2 1 = ''01''" "pad2 2 = ''02''" "pad2 3 = ''03''" "pad2 29 = ''29''"
  by code_simp+

lemma example_month_keys:
  "map (\<lambda>j. monthKeyOfIndex (24288 + int j)) [0..<3] = [''2024-01'', ''2024-02'', ''2024-03'']"
  by code_simp

lemma example_day_keys:
  "map (\<lambda>j. dayKey ((19723 + int j) * msPerDay)) [0..<61]
   = [''2024-01-01'', ''2024-01-02'', ''2024-01-03'', ''2024-01-04'', ''2024-01-05'',
      ''2024-01-06'', ''2024-01-07'', ''2024-01-08'', ''2024-01-09'', ''2024-01-10'',
      ''2024-01-11'', ''2024-01-12'', ''2024-01-13'', ''2024-01-14'', ''2024-01-15'',
      ''2024-01-16'', ''2024-01-17'', ''2024-01-18'', ''2024-01-19'', ''2024-01-20'',
      ''2024-01-21'', ''2024-01-22'', ''2024-01-23'', ''2024-01-24'', ''2024-01-25'',
      ''2024-01-26'', ''2024-01-27'', ''2024-01-28'', ''2024-01-29'', ''2024-01-30'',
      ''2024-01-31'', ''2024-02-01'', ''2024-02-02'', ''2024-02-03'', ''2024-02-04'',
      ''2024-02-05'', ''2024-02-06'', ''2024-02-07'', ''2024-02-08'', ''2024-02-09'',
      ''2024-02-10'', ''2024-02-11'', ''2024-02-12'', ''2024-02-13'', ''2024-02-14'',
      ''2024-02-15'', ''2024-02-16'', ''2024-02-17'', ''2024-02-18'', ''2024-02-19'',
      ''2024-02-20'', ''2024-02-21'', ''2024-02-22'', ''2024-02-23'', ''2024-02-24'',
      ''2024-02-25'', ''2024-02-26'', ''2024-02-27'', ''2024-02-28'', ''2024-02-29'',
      ''2024-03-01'']"
proof -
  have jan: "map (\<lambda>j. dayKey ((19723 + int j) * msPerDay)) [0..<31]
             = map (\<lambda>s. ''2024-01-'' @ s) (map (\<lambda>j. pad2 (1 + int j)) [0..<31])"
    using month_day_keys [of 0 31 2024] by (simp add: example_days example_month_lengths example_pads)
  have feb: "map (\<lambda>j. dayKey ((19754 + int j) * msPerDay)) [0..<29]
             = map (\<lambda>s. ''2024-02-'' @ s) (map (\<lambda>j. pad2 (1 + int j)) [0..<29])"
    using month_day_keys [of 1 29 2024] by (simp add: example_days example_month_lengths example_pads)
  have mar: "map (\<lambda>j. dayKey ((19783 + int j) * msPerDay)) [0..<1]
             = map (\<lambda>s. ''2024-03-'' @ s) (map (\<lambda>j. pad2 (1 + int j)) [0..<1])"
    using month_day_keys [of 2 1 2024] by (simp add: example_days example_month_lengths example_pads)
  have "map (\<lambda>j. dayKey ((19723 + int j) * msPerDay)) [0..<31 + (29 + 1)]
        = map (\<lambda>j. dayKey ((19723 + int j) * msPerDay)) [0..<31]
          @ map (\<lambda>j. dayKey ((19754 + int j) * msPerDay)) [0..<29]
          @ map (\<lambda>j. dayKey ((19783 + int j) * msPerDay)) [0..<1]"
    unfolding map_upt_split by (simp add: algebra_simps)
  then have "map (\<lambda>j. dayKey ((19723 + int j) * msPerDay)) [0..<61]
        = map (\<lambda>s. ''2024-01-'' @ s) (map (\<lambda>j. pad2 (1 + int j)) [0..<31])
          @ map (\<lambda>s. ''2024-02-'' @ s) (map (\<lambda>j. pad2 (1 + int j)) [0..<29])
          @ map (\<lambda>s. ''2024-03-'' @ s) (map (\<lambda>j. pad2 (1 + int j)) [0..<1])"
    by (simp only: jan feb mar) simp
  then show ?thesis
    unfolding example_pads by simp
qed





text \<open>
  C4. For a start and an end that are dates, the chart is monthly exactly when the
  day-span, the number of days from the one to the other as \<^verbatim>\<open>diffDays\<close> computes it,
  exceeds 60. On every host, in monthly mode every bucket's key is the year-and-month key
  of its timestamp, in daily mode the calendar-date key of its timestamp, and in daily
  mode there is at least one bucket when the end is not before the start. On a host whose
  offset from UTC is the same \<open>tza\<close> at all times the keys are, in daily mode, the keys
  of the days from the start to the end, one for each day and in this order, and in
  monthly mode the year-and-month keys of consecutive months, beginning with the month of
  the start in local time. The key of a day is its calendar date, written as year, month
  and day of the month.
\<close>

theorem C4_monthly_iff_span_exceeds_60:
  "(Date_parse h startDate = Some (dS * msPerDay) \<and> Date_parse h endDate = Some (dE * msPerDay)
    \<longrightarrow> (isMonthly h startDate endDate \<longleftrightarrow> \<bar>dE - dS\<bar> > 60)
      \<and> list_all (\<lambda>b. key b = (if \<bar>dE - dS\<bar> > 60 then monthKey h (timestamp b)
                                 else dayKey (timestamp b)))
           (chartData h prs commits startDate endDate)
      \<and> (\<bar>dE - dS\<bar> \<le> 60 \<and> dS \<le> dE \<longrightarrow> chartData h prs commits startDate endDate \<noteq> [])
      \<and> (constantOffset h tza \<and> \<bar>dE - dS\<bar> \<le> 60
           \<longrightarrow> map key (chartData h prs commits startDate endDate)
               = map (\<lambda>j. dayKey ((dS + int j) * msPerDay)) [0..<daysSpanned dS dE])
      \<and> (constantOffset h tza \<and> \<bar>dE - dS\<bar> > 60
           \<longrightarrow> map key (chartData h prs commits startDate endDate)
               = map (\<lambda>j. monthKeyOfIndex (calendarMonth (localDay tza dS * msPerDay) + int j))
                   [0..<min (monthsSpanned (localDay tza dS) (localDay tza dE)) 1001]))
   \<and> (0 \<le> m \<and> m \<le> 11 \<and> 1 \<le> d \<and> d \<le> daysInMonth y m
      \<longrightarrow> dayKey (MakeDay y m d * msPerDay) = isoYear y @ ''-'' @ pad2 (m + 1) @ ''-'' @ pad2 d)"
proof -
  have civil: "dayKey (MakeDay y m d * msPerDay) = isoYear y @ ''-'' @ pad2 (m + 1) @ ''-'' @ pad2 d"
    if "0 \<le> m" "m \<le> 11" "1 \<le> d" "d \<le> daysInMonth y m"
    using that by (rule dayKey_civil_date)
  have mode: "isMonthly h startDate endDate \<longleftrightarrow> \<bar>dE - dS\<bar> > 60"
    if p: "Date_parse h startDate = Some (dS * msPerDay)" "Date_parse h endDate = Some (dE * msPerDay)"
    by (simp add: isMonthly_def p diffDays_midnights)
  have shape: "list_all (\<lambda>b. key b = (if \<bar>dE - dS\<bar> > 60 then monthKey h (timestamp b)
                                 else dayKey (timestamp b)))
           (chartData h prs commits startDate endDate)"
    if p: "Date_parse h startDate = Some (dS * msPerDay)" "Date_parse h endDate = Some (dE * msPerDay)"
  proof -
    have "key b = (if \<bar>dE - dS\<bar> > 60 then monthKey h (timestamp b) else dayKey (timestamp b))"
      if "b \<in> set (chartData h prs commits startDate endDate)" for b
      using chartData_keys [OF p that] by (simp add: diffDays_midnights bucketKey_def)
    then show ?thesis
      by (simp add: list_all_iff)
  qed
  note some = chartData_daily_nonempty [of h startDate dS endDate dE prs commits]
  note daily = chartData_daily(1) [of h startDate dS endDate dE tza prs commits]
  note monthly = chartData_monthly [of h startDate dS endDate dE tza prs commits]
  show ?thesis
    by (intro conjI impI; (elim conjE)?)
       (simp_all add: civil mode shape some daily monthly)
qed

text \<open>
  The boundary, on a host at UTC with one pull request and one commit: 2024-03-01 is 60
  days after 2024-01-01 and gives the 61 daily buckets of 2024-01-01 to 2024-03-01;
  2024-03-02 is 61 days after it and gives the monthly buckets of January to March. The
  key of the day \<^verbatim>\<open>MakeDay 2024 1 29\<close> is 2024-02-29.
\<close>

theorem C4_example_60_and_61_days:
  "MakeDay 2024 2 1 - MakeDay 2024 0 1 = 60
   \<and> \<not> isMonthly (hostAt 0) ''2024-01-01'' ''2024-03-01''
   \<and> map key (chartData (hostAt 0) [mkPR 1 [] []] [mkCommit [] []] ''2024-01-01'' ''2024-03-01'')
       = [''2024-01-01'', ''2024-01-02'', ''2024-01-03'', ''2024-01-04'', ''2024-01-05'',
        ''2024-01-06'', ''2024-01-07'', ''2024-01-08'', ''2024-01-09'', ''2024-01-10'',
        ''2024-01-11'', ''2024-01-12'', ''2024-01-13'', ''2024-01-14'', ''2024-01-15'',
        ''2024-01-16'', ''2024-01-17'', ''2024-01-18'', ''2024-01-19'', ''2024-01-20'',
        ''2024-01-21'', ''2024-01-22'', ''2024-01-23'', ''2024-01-24'', ''2024-01-25'',
        ''2024-01-26'', ''2024-01-27'', ''2024-01-28'', ''2024-01-29'', ''2024-01-30'',
        ''2024-01-31'', ''2024-02-01'', ''2024-02-02'', ''2024-02-03'', ''2024-02-04'',
        ''2024-02-05'', ''2024-02-06'', ''2024-02-07'', ''2024-02-08'', ''2024-02-09'',
        ''2024-02-10'', ''2024-02-11'', ''2024-02-12'', ''2024-02-13'', ''2024-02-14'',
        ''2024-02-15'', ''2024-02-16'', ''2024-02-17'', ''2024-02-18'', ''2024-02-19'',
        ''2024-02-20'', ''2024-02-21'', ''2024-02-22'', ''2024-02-23'', ''2024-02-24'',
        ''2024-02-25'', ''2024-02-26'', ''2024-02-27'', ''2024-02-28'', ''2024-02-29'',
        ''2024-03-01'']
   \<and> list_all (\<lambda>b. key b = dayKey (timestamp b))
        (chartData (hostAt 0) [mkPR 1 [] []] [mkCommit [] []] ''2024-01-01'' ''2024-03-01'')
   \<and> MakeDay 2024 2 2 - MakeDay 2024 0 1 = 61
   \<and> isMonthly (hostAt 0) ''2024-01-01'' ''2024-03-02''
   \<and> map key (chartData (hostAt 0) [mkPR 1 [] []] [mkCommit [] []] ''2024-01-01'' ''2024-03-02'')
       = [''2024-01'', ''2024-02'', ''2024-03'']
   \<and> list_all (\<lambda>b. key b = monthKey (hostAt 0) (timestamp b))
        (chartData (hostAt 0) [mkPR 1 [] []] [mkCommit [] []] ''2024-01-01'' ''2024-03-02'')
   \<and> dayKey (MakeDay 2024 1 29 * msPerDay) = ''2024-02-29''"
proof -
  have d60: "MakeDay 2024 2 1 - MakeDay 2024 0 1 = 60" and d61: "MakeDay 2024 2 2 - MakeDay 2024 0 1 = 61"
    by (simp_all add: example_days)
  have days: "daysSpanned 19723 19783 = 61"
    by (simp add: daysSpanned_def)
  have months: "monthsSpanned 19723 19784 = 3" "calendarMonth (19723 * msPerDay) = 24288"
    using calendarMonth_first_day [of 2024 0]
    by (simp_all add: monthsSpanned_def example_days example_months)
  from C4_monthly_iff_span_exceeds_60 [of "hostAt 0" "''2024-01-01''" 19723
      "''2024-03-01''" 19783 "[mkPR 1 [] []]" "[mkCommit [] []]" 0 1 29 2024]
  have a: "\<not> isMonthly (hostAt 0) ''2024-01-01'' ''2024-03-01''"
    and b: "list_all (\<lambda>b. key b = dayKey (timestamp b))
        (chartData (hostAt 0) [mkPR 1 [] []] [mkCommit [] []] ''2024-01-01'' ''2024-03-01'')"
    and c: "map key (chartData (hostAt 0) [mkPR 1 [] []] [mkCommit [] []] ''2024-01-01'' ''2024-03-01'')
            = map (\<lambda>j. dayKey ((19723 + int j) * msPerDay)) [0..<61]"
    and g: "dayKey (MakeDay 2024 1 29 * msPerDay) = ''2024-02-29''"
    by (simp_all add: example_parse example_days constantOffset_hostAt days example_month_lengths
        example_pads)
  from C4_monthly_iff_span_exceeds_60 [of "hostAt 0" "''2024-01-01''" 19723
      "''2024-03-02''" 19784 "[mkPR 1 [] []]" "[mkCommit [] []]" 0 1 29 2024]
  have d: "isMonthly (hostAt 0) ''2024-01-01'' ''2024-03-02''"
    and e: "list_all (\<lambda>b. key b = monthKey (hostAt 0) (timestamp b))
        (chartData (hostAt 0) [mkPR 1 [] []] [mkCommit [] []] ''2024-01-01'' ''2024-03-02'')"
    and f: "map key (chartData (hostAt 0) [mkPR 1 [] []] [mkCommit [] []] ''2024-01-01'' ''2024-03-02'')
            = map (\<lambda>j. monthKeyOfIndex (24288 + int j)) [0..<3]"
    by (simp_all add: example_parse example_days constantOffset_hostAt months localDay_def)
  from d60 d61 a b c [unfolded example_day_keys] d e f [unfolded example_month_keys] g
  show ?thesis
    by blast
qed

end
